theory Spec2Isabelle
  imports Main
begin

section \<open>Python values, exceptions and results\<close>

text \<open>
  The engines are Cython classes: a Python object wrapping a C state struct.  Python
  integers are unbounded (\<open>int\<close>); the words stored in the C structs are modelled as
  \<open>int\<close> as well, their ranges written out where a conversion checks them.  An operation
  that raises returns \<open>Raised e s\<close>, where \<open>s\<close> is the instance as the exception leaves it,
  so that a write made before the raise stays visible.
\<close>

datatype error = TypeError | ValueError | KeyError | IndexError | OverflowError

datatype pyobj =
    PyNone
  | PyInt int
  | PyStr string
  | PyInts "int list"
  | PyDoubles "int list"
  | PyDict "(string \<times> pyobj) list"

datatype 'a res = Done 'a | Raised error 'a

definition check :: "error + 'a \<Rightarrow> 's \<Rightarrow> ('a \<Rightarrow> 's res) \<Rightarrow> 's res" where
  "check r s k = (case r of Inl e \<Rightarrow> Raised e s | Inr a \<Rightarrow> k a)"

definition dict_get :: "(string \<times> pyobj) list \<Rightarrow> string \<Rightarrow> pyobj \<Rightarrow> pyobj" where
  "dict_get d k dflt = (case map_of d k of None \<Rightarrow> dflt | Some v \<Rightarrow> v)"

definition getitem :: "pyobj \<Rightarrow> string \<Rightarrow> error + pyobj" where
  "getitem obj k =
     (case obj of
        PyDict d \<Rightarrow> (case map_of d k of None \<Rightarrow> Inl KeyError | Some v \<Rightarrow> Inr v)
      | _ \<Rightarrow> Inl TypeError)"

text \<open>Assigning a Python object to a C \<open>int\<close> or \<open>uint32_t\<close> field converts it.\<close>

definition as_int :: "pyobj \<Rightarrow> error + int" where
  "as_int obj =
     (case obj of
        PyInt i \<Rightarrow> if - (2 ^ 31) \<le> i \<and> i < 2 ^ 31 then Inr i else Inl OverflowError
      | _ \<Rightarrow> Inl TypeError)"

definition as_uint32 :: "pyobj \<Rightarrow> error + int" where
  "as_uint32 obj =
     (case obj of
        PyInt i \<Rightarrow> if 0 \<le> i \<and> i < 2 ^ 32 then Inr i else Inl OverflowError
      | _ \<Rightarrow> Inl TypeError)"

section \<open>The coercion helpers of \<open>randomgen.common\<close>\<close>

text \<open>
  \<open>object_to_int\<close>, \<open>int_to_array\<close>, \<open>wrap_int\<close> and \<open>check_state_array\<close> are imported
  from \<open>randomgen.common\<close>, which is not among the source files.
\<close>

definition words_of :: "int \<Rightarrow> nat \<Rightarrow> nat \<Rightarrow> int list" where
  "words_of v width len = map (\<lambda>i. (v div 2 ^ (width * i)) mod 2 ^ width) [0..<len]"

definition from_words :: "nat \<Rightarrow> int list \<Rightarrow> int" where
  "from_words width xs = foldr (\<lambda>x acc. x + 2 ^ width * acc) xs 0"

function le_words64 :: "int \<Rightarrow> int list" where
  "le_words64 v = (if v < 2 ^ 64 then [v] else (v mod 2 ^ 64) # le_words64 (v div 2 ^ 64))"
  by pat_completeness auto
termination
  by (relation "measure nat") auto

declare le_words64.simps [simp del]

text \<open>
  Modelled from the spec: \<open>wrap_int(val, bits)\<close>, missing from the sources, wraps an
  integer into \<open>[0, 2^bits)\<close> by Euclidean remainder.
\<close>

definition wrap_int :: "int \<Rightarrow> int \<Rightarrow> int" where
  "wrap_int val bits = val mod 2 ^ nat bits"

text \<open>
  Modelled from the spec: \<open>int_to_array(value, name, bits, uint_size)\<close>, missing from the
  sources, expands an accepted integer to a little-endian array of fixed-width words,
  \<open>value[i] = (n // 2^(width*i)) % 2^width\<close>, with \<open>bits // uint_size\<close> words (as many
  as the value needs when \<open>bits\<close> is \<open>None\<close>); a negative value or one \<open>\<ge> 2^bits\<close>
  raises a \<open>ValueError\<close>.  The words are 32 or 64 bits wide.
\<close>

definition int_to_array :: "int \<Rightarrow> int option \<Rightarrow> int \<Rightarrow> error + int list" where
  "int_to_array v bits uint_size =
     (if uint_size = 32 \<or> uint_size = 64 then
        (case bits of
           None \<Rightarrow> if v < 0 then Inl ValueError else Inr (le_words64 v)
         | Some b \<Rightarrow>
             if v < 0 \<or> 2 ^ nat b \<le> v then Inl ValueError
             else Inr (words_of v (nat uint_size) (nat (b div uint_size))))
      else Inl ValueError)"

text \<open>
  Modelled from the spec: \<open>object_to_int(val, bits, name)\<close>, missing from the sources,
  turns a seed, key or counter argument into one integer: \<open>None\<close> stays \<open>None\<close>, an array
  of 64-bit words is read little-endian (\<open>array[i] = (value // 2**(64*i)) % 2**64\<close>),
  and a value outside \<open>[0, 2^bits)\<close> raises a \<open>ValueError\<close>.
\<close>

definition object_to_int :: "pyobj \<Rightarrow> int \<Rightarrow> error + int option" where
  "object_to_int val bits =
     (case val of
        PyNone \<Rightarrow> Inr None
      | PyInt v \<Rightarrow> if v < 0 \<or> 2 ^ nat bits \<le> v then Inl ValueError else Inr (Some v)
      | PyInts xs \<Rightarrow>
          if list_ex (\<lambda>x. x < 0 \<or> 2 ^ 64 \<le> x) xs then Inl ValueError
          else if 2 ^ nat bits \<le> from_words 64 xs then Inl ValueError
          else Inr (Some (from_words 64 xs))
      | _ \<Rightarrow> Inl TypeError)"

text \<open>
  Modelled from the spec: \<open>check_state_array(arr, required_len, required_bits, name)\<close>,
  missing from the sources, validates the length of a state array and the range
  \<open>[0, 2^width)\<close> of each element, and raises a \<open>ValueError\<close> otherwise.
\<close>

definition check_state_array :: "pyobj \<Rightarrow> int \<Rightarrow> int \<Rightarrow> error + int list" where
  "check_state_array arr required_len required_bits =
     (case arr of
        PyInts xs \<Rightarrow>
          if int (length xs) = required_len \<and> list_all (\<lambda>x. 0 \<le> x \<and> x < 2 ^ nat required_bits) xs
          then Inr xs else Inl ValueError
      | _ \<Rightarrow> Inl ValueError)"

text \<open>
  \<open>ndarray.view(dtype)\<close> reinterprets the bytes of an array (little-endian): a 64-bit
  word is two 32-bit words, low half first.
\<close>

fun join32 :: "int list \<Rightarrow> error + int list" where
  "join32 [] = Inr []"
| "join32 [x] = Inl ValueError"
| "join32 (lo # hi # xs) =
     (case join32 xs of Inl e \<Rightarrow> Inl e | Inr ys \<Rightarrow> Inr ((lo + 2 ^ 32 * hi) # ys))"

definition view :: "int \<Rightarrow> int \<Rightarrow> int list \<Rightarrow> error + int list" where
  "view from_bits to_bits xs =
     (if from_bits = to_bits then Inr xs
      else if from_bits = 64 then Inr (concat (map (\<lambda>x. [x mod 2 ^ 32, x div 2 ^ 32]) xs))
      else join32 xs)"

text \<open>
  \<open>for i in range(k): dst[i] = src[i]\<close> on the cells of a C array: an index past the end
  of \<open>src\<close> raises \<open>IndexError\<close> after the earlier cells have been written.
\<close>

definition copy_cells :: "int list \<Rightarrow> nat \<Rightarrow> int list \<Rightarrow> (error + unit) \<times> int list" where
  "copy_cells src k dst =
     (if k \<le> length src then (Inr (), map (\<lambda>i. src ! i) [0..<k])
      else (Inl IndexError, src @ drop (length src) dst))"

section \<open>Philox: the state\<close>

text \<open>
  \<open>philox_all_t\<close> is the C struct.  Its \<open>state\<close> member is a union of the four variants'
  counter and key arrays; \<open>ctr\<close> and \<open>key\<close> are the cells of the live variant (\<open>number\<close>
  counter words and \<open>number // 2\<close> key words).  The layout of the union is not part of
  the model, so the lists say what the code reads only while they were written for the
  variant that \<open>number\<close> and \<open>width\<close> name; nothing below is stated about them across a
  change of variant that did not write them.  \<open>buffer\<close> has \<open>PHILOX_BUFFER_SIZE\<close> cells,
  each a union of a \<open>u64\<close> and a \<open>u32\<close> that shares its low half.
\<close>

definition PHILOX_BUFFER_SIZE :: int where
  "PHILOX_BUFFER_SIZE = 4"

record philox_all_t =
  ctr :: "int list"
  key :: "int list"
  buffer_pos :: int
  buffer :: "int list"
  has_uint32 :: int
  uinteger :: int
  number :: int
  width :: int

definition get_u32 :: "int \<Rightarrow> int" where
  "get_u32 cell = cell mod 2 ^ 32"

definition set_u32 :: "int \<Rightarrow> int \<Rightarrow> int" where
  "set_u32 cell v = (cell div 2 ^ 32) * 2 ^ 32 + v mod 2 ^ 32"

text \<open>The C wrappers at the top of the module, the targets of the function-pointer table.\<close>

datatype cfunc =
    NULL_fn
  | philox2x64_uint64 | philox2x64_uint32 | philox2x64_double
  | philox4x64_uint64 | philox4x64_uint32 | philox4x64_double
  | philox4x32_uint64 | philox4x32_uint32 | philox4x32_double | philox4x32_raw
  | philox2x32_uint64 | philox2x32_uint32 | philox2x32_double | philox2x32_raw

record bitgen_t =
  next_uint64 :: cfunc
  next_uint32 :: cfunc
  next_double :: cfunc
  next_raw :: cfunc

record Philox =
  rng_state :: philox_all_t
  self_n :: int
  self_w :: int
  bitgen :: bitgen_t

text \<open>
  The C primitives of \<open>philox.h\<close> and \<open>seed_by_array\<close> of \<open>randomgen.entropy\<close> are not
  among the sources: the model takes them as parameters.  \<open>philox_next64 P N W\<close> stands
  for \<open>philoxNxW_next64\<close>, and so on; each works on the C struct alone.
  \<open>seed_by_array(seed, n)\<close> returns \<open>n\<close> 64-bit words: \<open>c_seed_by_array P seed n i\<close> gives
  the word at index \<open>i\<close>.
\<close>

record prims =
  philox_next64 :: "int \<Rightarrow> int \<Rightarrow> philox_all_t \<Rightarrow> int \<times> philox_all_t"
  philox_next32 :: "int \<Rightarrow> int \<Rightarrow> philox_all_t \<Rightarrow> int \<times> philox_all_t"
  philox_next_double :: "int \<Rightarrow> int \<Rightarrow> philox_all_t \<Rightarrow> int \<times> philox_all_t"
  philox_advance :: "int \<Rightarrow> int \<Rightarrow> philox_all_t \<Rightarrow> int list \<Rightarrow> bool \<Rightarrow> philox_all_t"
  c_seed_by_array :: "int list \<Rightarrow> nat \<Rightarrow> nat \<Rightarrow> int"

definition seed_by_array :: "prims \<Rightarrow> int list \<Rightarrow> int \<Rightarrow> int list" where
  "seed_by_array P sd cnt = map (\<lambda>i. c_seed_by_array P sd (nat cnt) i mod 2 ^ 64) [0..<nat cnt]"

text \<open>
  Modelled from the spec: \<open>random_entropy(size, 'auto')\<close>, missing from the sources,
  supplies \<open>size\<close> uniformly random 32-bit words; \<open>ent\<close> is the operating system's source.
\<close>

definition random_entropy :: "(nat \<Rightarrow> int) \<Rightarrow> int \<Rightarrow> int list" where
  "random_entropy ent sz = map (\<lambda>i. ent i mod 2 ^ 32) [0..<nat sz]"

section \<open>Philox: the methods\<close>

definition setup_generator :: "Philox \<Rightarrow> Philox" where
  "setup_generator self =
     (if self_n self = 4 \<and> self_w self = 64 then
        self\<lparr>bitgen := \<lparr>next_uint64 = philox4x64_uint64, next_uint32 = philox4x64_uint32,
                         next_double = philox4x64_double, next_raw = philox4x64_uint64\<rparr>\<rparr>
      else if self_n self = 2 \<and> self_w self = 64 then
        self\<lparr>bitgen := \<lparr>next_uint64 = philox2x64_uint64, next_uint32 = philox2x64_uint32,
                         next_double = philox2x64_double, next_raw = philox2x64_uint64\<rparr>\<rparr>
      else if self_n self = 4 \<and> self_w self = 32 then
        self\<lparr>bitgen := \<lparr>next_uint64 = philox4x32_uint64, next_uint32 = philox4x32_uint32,
                         next_double = philox4x32_double, next_raw = philox4x32_raw\<rparr>\<rparr>
      else if self_n self = 2 \<and> self_w self = 32 then
        self\<lparr>bitgen := \<lparr>next_uint64 = philox2x32_uint64, next_uint32 = philox2x32_uint32,
                         next_double = philox2x32_double, next_raw = philox2x32_raw\<rparr>\<rparr>
      else self)"

definition reset_state_variables :: "philox_all_t \<Rightarrow> philox_all_t" where
  "reset_state_variables r =
     r\<lparr>uinteger := 0, has_uint32 := 0, buffer_pos := PHILOX_BUFFER_SIZE,
       buffer := replicate (nat PHILOX_BUFFER_SIZE) 0\<rparr>"

text \<open>The array \<open>_seed.view(dtype)\<close> that \<open>seed\<close> derives the key from.\<close>

definition seed_words ::
  "prims \<Rightarrow> (nat \<Rightarrow> int) \<Rightarrow> int \<Rightarrow> int \<Rightarrow> int option \<Rightarrow> int option \<Rightarrow> error + int list" where
  "seed_words P ent nn ww seed1 key1 =
     (let u32_size = (nn div 2) * (ww div 32);
          dtype = (if ww = 64 then 64 else 32)
      in case key1 of
           Some k \<Rightarrow>
             (case int_to_array k (Some (nn div 2 * ww)) ww of
                Inl e \<Rightarrow> Inl e
              | Inr a \<Rightarrow> view ww dtype a)
         | None \<Rightarrow>
             (case seed1 of
                Some s \<Rightarrow>
                  (case int_to_array s None 64 of
                     Inl e \<Rightarrow> Inl e
                   | Inr a \<Rightarrow> view 64 dtype (seed_by_array P a (max (u32_size div 2) 1)))
              | None \<Rightarrow> view 32 dtype (random_entropy ent u32_size)))"

definition seed ::
  "prims \<Rightarrow> (nat \<Rightarrow> int) \<Rightarrow> Philox \<Rightarrow> pyobj \<Rightarrow> pyobj \<Rightarrow> pyobj \<Rightarrow> Philox res" where
  "seed P ent self sd counter ky =
     (let nn = self_n self; ww = self_w self in
      check (object_to_int sd (nn * ww div 2)) self (\<lambda>seed1.
      check (object_to_int ky (nn div 2 * ww)) self (\<lambda>key1.
      check (object_to_int counter (nn * ww)) self (\<lambda>counter1.
      if seed1 \<noteq> None \<and> key1 \<noteq> None then Raised ValueError self
      else
        check (seed_words P ent nn ww seed1 key1) self (\<lambda>sw.
        let (r1, key') = copy_cells sw (nat (nn div 2)) (key (rng_state self));
            self1 = self\<lparr>rng_state := (rng_state self)\<lparr>key := key'\<rparr>\<rparr>
        in check r1 self1 (\<lambda>_.
           check (int_to_array (case counter1 of None \<Rightarrow> 0 | Some c \<Rightarrow> c) (Some (nn * ww)) ww)
             self1 (\<lambda>ca.
           let (r2, ctr') = copy_cells ca (nat nn) (ctr (rng_state self1));
               self2 = self1\<lparr>rng_state := (rng_state self1)\<lparr>ctr := ctr'\<rparr>\<rparr>
           in check r2 self2 (\<lambda>_.
              Done (self2\<lparr>rng_state := reset_state_variables (rng_state self2)\<rparr>)))))))))"

definition new_philox :: Philox where
  "new_philox =
     \<lparr>rng_state = \<lparr>ctr = [], key = [], buffer_pos = 0, buffer = replicate 4 0,
                   has_uint32 = 0, uinteger = 0, number = 0, width = 0\<rparr>,
      self_n = 0, self_w = 0,
      bitgen = \<lparr>next_uint64 = NULL_fn, next_uint32 = NULL_fn,
                next_double = NULL_fn, next_raw = NULL_fn\<rparr>\<rparr>"

definition Philox_init ::
  "prims \<Rightarrow> (nat \<Rightarrow> int) \<Rightarrow> pyobj \<Rightarrow> pyobj \<Rightarrow> pyobj \<Rightarrow> int \<Rightarrow> int \<Rightarrow> error + Philox" where
  "Philox_init P ent sd counter ky num wid =
     (if num \<noteq> 2 \<and> num \<noteq> 4 then Inl ValueError
      else if wid \<noteq> 32 \<and> wid \<noteq> 64 then Inl ValueError
      else
        (case seed P ent
                (new_philox\<lparr>self_n := num, self_w := wid,
                            rng_state := (rng_state new_philox)\<lparr>number := num, width := wid\<rparr>\<rparr>)
                sd counter ky of
           Raised e _ \<Rightarrow> Inl e
         | Done self \<Rightarrow> Inr (setup_generator self)))"

definition state_getter :: "Philox \<Rightarrow> pyobj" where
  "state_getter self =
     (let nn = nat (self_n self); r = rng_state self in
      PyDict
        [(''bit_generator'', PyStr ''Philox''),
         (''state'',
            PyDict [(''counter'', PyInts (map (\<lambda>i. ctr r ! i) [0..<nn])),
                    (''key'', PyInts (map (\<lambda>i. key r ! i) [0..<nat (self_n self div 2)]))]),
         (''buffer'',
            PyInts (map (\<lambda>i. if self_w self = 64 then buffer r ! i else get_u32 (buffer r ! i))
                      [0..<nn])),
         (''buffer_pos'', PyInt (buffer_pos r)),
         (''has_uint32'', PyInt (has_uint32 r)),
         (''uinteger'', PyInt (uinteger r)),
         (''number'', PyInt (number r)),
         (''width'', PyInt (width r))])"

definition write_buffer :: "int \<Rightarrow> int \<Rightarrow> int list \<Rightarrow> int list \<Rightarrow> int list" where
  "write_buffer nn ww src buf =
     foldl (\<lambda>b i. b[i := (if ww = 32 then set_u32 (b ! i) (src ! i) else src ! i)]) buf [0..<nat nn]"

definition state_setter :: "Philox \<Rightarrow> pyobj \<Rightarrow> Philox res" where
  "state_setter self v =
     (case v of
        PyDict d \<Rightarrow>
          if dict_get d ''bit_generator'' (PyStr '''') = PyStr ''Philox'' then
            check (as_int (dict_get d ''number'' (PyInt 4))) self (\<lambda>num.
            let self1 = self\<lparr>rng_state := (rng_state self)\<lparr>number := num\<rparr>, self_n := num\<rparr> in
            check (as_int (dict_get d ''width'' (PyInt 64))) self1 (\<lambda>wid.
            let self2 = setup_generator
                          (self1\<lparr>rng_state := (rng_state self1)\<lparr>width := wid\<rparr>, self_w := wid\<rparr>);
                nn = self_n self2; ww = self_w self2
            in
            check (getitem v ''state'') self2 (\<lambda>st.
            check (getitem st ''counter'') self2 (\<lambda>c.
            check (check_state_array c nn ww) self2 (\<lambda>ctr1.
            check (getitem st ''key'') self2 (\<lambda>k.
            check (check_state_array k (nn div 2) ww) self2 (\<lambda>key1.
            check (getitem v ''buffer'') self2 (\<lambda>b.
            check (check_state_array b nn ww) self2 (\<lambda>buffer1.
            let r3 = reset_state_variables (rng_state self2);
                r4 = r3\<lparr>buffer := write_buffer nn ww buffer1 (buffer r3),
                        ctr := map (\<lambda>i. ctr1 ! i) [0..<nat nn]\<rparr>;
                r5 = r4\<lparr>key := map (\<lambda>i. key1 ! i) [0..<nat (nn div 2)]\<rparr>;
                self5 = self2\<lparr>rng_state := r5\<rparr>
            in
            check (getitem v ''has_uint32'') self5 (\<lambda>h.
            check (as_int h) self5 (\<lambda>h1.
            let self6 = self5\<lparr>rng_state := r5\<lparr>has_uint32 := h1\<rparr>\<rparr> in
            check (getitem v ''uinteger'') self6 (\<lambda>u.
            check (as_uint32 u) self6 (\<lambda>u1.
            let self7 = self6\<lparr>rng_state := (rng_state self6)\<lparr>uinteger := u1\<rparr>\<rparr> in
            check (getitem v ''buffer_pos'') self7 (\<lambda>p.
            check (as_int p) self7 (\<lambda>p1.
            Done (self7\<lparr>rng_state := (rng_state self7)\<lparr>buffer_pos := p1\<rparr>\<rparr>))))))))))))))))
          else Raised ValueError self
      | _ \<Rightarrow> Raised TypeError self)"

definition advance :: "prims \<Rightarrow> Philox \<Rightarrow> int \<Rightarrow> bool option \<Rightarrow> Philox res" where
  "advance P self delta counter =
     (let cnt = (case counter of None \<Rightarrow> True | Some c \<Rightarrow> c);
          nn = self_n self; ww = self_w self
      in
      if delta = 0 then Done self
      else
        let delta1 = (if cnt then delta * nn else delta);
            delta2 = wrap_int delta1 (nn * ww + nn div 2)
        in
        check (int_to_array delta2 (Some ((nn + 1) * ww)) ww) self (\<lambda>delta_a.
        let r1 = (if nn = 2 \<and> ww = 32 then philox_advance P 2 32 (rng_state self) delta_a (\<not> cnt)
                  else if nn = 4 \<and> ww = 32 then philox_advance P 4 32 (rng_state self) delta_a (\<not> cnt)
                  else if nn = 2 \<and> ww = 64 then philox_advance P 2 64 (rng_state self) delta_a (\<not> cnt)
                  else philox_advance P 4 64 (rng_state self) delta_a (\<not> cnt));
            r2 = r1\<lparr>uinteger := 0, has_uint32 := 0\<rparr>;
            r3 = (if cnt then reset_state_variables r2 else r2)
        in Done (self\<lparr>rng_state := r3\<rparr>)))"

definition jump_inplace :: "prims \<Rightarrow> Philox \<Rightarrow> int \<Rightarrow> Philox res" where
  "jump_inplace P self iter =
     (let step_size = (self_w self * self_n self) div 2
      in advance P self (iter * 2 ^ nat step_size) (Some True))"

definition jump :: "prims \<Rightarrow> Philox \<Rightarrow> int \<Rightarrow> Philox res" where
  "jump P self iter = jump_inplace P self iter"

definition as_intp :: "int \<Rightarrow> error + int" where
  "as_intp i = (if - (2 ^ 63) \<le> i \<and> i < 2 ^ 63 then Inr i else Inl OverflowError)"

text \<open>
  \<open>jumped\<close> creates a second instance, so it is modelled on a store of instances: an
  instance is addressed by its index, and a new instance is appended.  The parameter
  \<open>iter\<close> is declared \<open>np.npy_intp\<close>.
\<close>

definition jumped ::
  "prims \<Rightarrow> (nat \<Rightarrow> int) \<Rightarrow> Philox list \<Rightarrow> nat \<Rightarrow> int \<Rightarrow> (error + nat) \<times> Philox list" where
  "jumped P ent h self iter =
     (case as_intp iter of
        Inl e \<Rightarrow> (Inl e, h)
      | Inr it \<Rightarrow>
          (case Philox_init P ent PyNone PyNone PyNone 4 64 of
             Inl e \<Rightarrow> (Inl e, h)
           | Inr fresh \<Rightarrow>
               (let bit_generator = length h; h1 = h @ [fresh] in
                case state_setter (h1 ! bit_generator) (state_getter (h1 ! self)) of
                  Raised e g \<Rightarrow> (Inl e, h1[bit_generator := g])
                | Done g \<Rightarrow>
                    (case jump_inplace P g it of
                       Raised e g' \<Rightarrow> (Inl e, h1[bit_generator := g'])
                     | Done g' \<Rightarrow> (Inr bit_generator, h1[bit_generator := g'])))))"

subsection \<open>The output entry points\<close>

datatype entry = Next_raw | Next_uint32 | Next_uint64 | Next_double

definition entry_fn :: "bitgen_t \<Rightarrow> entry \<Rightarrow> cfunc" where
  "entry_fn t e =
     (case e of Next_raw \<Rightarrow> next_raw t | Next_uint32 \<Rightarrow> next_uint32 t
      | Next_uint64 \<Rightarrow> next_uint64 t | Next_double \<Rightarrow> next_double t)"

text \<open>A call through a pointer of the table runs the wrapper it points to.\<close>

fun call_cfunc :: "prims \<Rightarrow> cfunc \<Rightarrow> philox_all_t \<Rightarrow> (int \<times> philox_all_t) option" where
  "call_cfunc P NULL_fn st = None"
| "call_cfunc P philox2x64_uint64 st = Some (philox_next64 P 2 64 st)"
| "call_cfunc P philox2x64_uint32 st = Some (philox_next32 P 2 64 st)"
| "call_cfunc P philox2x64_double st = Some (philox_next_double P 2 64 st)"
| "call_cfunc P philox4x64_uint64 st = Some (philox_next64 P 4 64 st)"
| "call_cfunc P philox4x64_uint32 st = Some (philox_next32 P 4 64 st)"
| "call_cfunc P philox4x64_double st = Some (philox_next_double P 4 64 st)"
| "call_cfunc P philox4x32_uint64 st = Some (philox_next64 P 4 32 st)"
| "call_cfunc P philox4x32_uint32 st = Some (philox_next32 P 4 32 st)"
| "call_cfunc P philox4x32_double st = Some (philox_next_double P 4 32 st)"
| "call_cfunc P philox4x32_raw st = Some (philox_next32 P 4 32 st)"
| "call_cfunc P philox2x32_uint64 st = Some (philox_next64 P 2 32 st)"
| "call_cfunc P philox2x32_uint32 st = Some (philox_next32 P 2 32 st)"
| "call_cfunc P philox2x32_double st = Some (philox_next_double P 2 32 st)"
| "call_cfunc P philox2x32_raw st = Some (philox_next32 P 2 32 st)"

definition pull :: "prims \<Rightarrow> entry \<Rightarrow> Philox \<Rightarrow> (int \<times> Philox) option" where
  "pull P e self =
     (case call_cfunc P (entry_fn (bitgen self) e) (rng_state self) of
        None \<Rightarrow> None
      | Some (x, r) \<Rightarrow> Some (x, self\<lparr>rng_state := r\<rparr>))"

fun draws :: "prims \<Rightarrow> entry list \<Rightarrow> Philox \<Rightarrow> (int list \<times> Philox) option" where
  "draws P [] self = Some ([], self)"
| "draws P (e # es) self =
     (case pull P e self of
        None \<Rightarrow> None
      | Some (x, self1) \<Rightarrow>
          (case draws P es self1 of None \<Rightarrow> None | Some (xs, self2) \<Rightarrow> Some (x # xs, self2)))"

section \<open>DSFMT\<close>

definition DSFMT_N :: int where
  "DSFMT_N = 191"

definition DSFMT_N_PLUS_1 :: int where
  "DSFMT_N_PLUS_1 = 192"

definition DSFMT_N64 :: int where
  "DSFMT_N64 = DSFMT_N * 2"

text \<open>
  \<open>status\<close> holds the \<open>u\<close> view of the \<open>DSFMT_N_PLUS_1\<close> 128-bit words, \<open>status[i].u[j]\<close> at
  index \<open>2 * i + j\<close>.  A double is modelled by its bit pattern.
\<close>

record dsfmt_t =
  status :: "int list"
  idx :: int

record dsfmt_state =
  dstate :: dsfmt_t
  ds_has_uint32 :: int
  ds_uinteger :: int
  buffered_uniforms :: "int list"
  buffer_loc :: int

record DSFMT =
  ds_rng_state :: dsfmt_state

text \<open>
  The C functions of \<open>dSFMT.h\<close> are declared in the module and defined elsewhere: the
  model takes them as parameters.
\<close>

record dsfmt_prims =
  dsfmt_next_double :: "dsfmt_state \<Rightarrow> int \<times> dsfmt_state"
  dsfmt_next64 :: "dsfmt_state \<Rightarrow> int \<times> dsfmt_state"
  dsfmt_next32 :: "dsfmt_state \<Rightarrow> int \<times> dsfmt_state"
  dsfmt_next_raw :: "dsfmt_state \<Rightarrow> int \<times> dsfmt_state"
  dsfmt_init_gen_rand :: "dsfmt_t \<Rightarrow> int \<Rightarrow> dsfmt_t"
  dsfmt_init_by_array :: "dsfmt_t \<Rightarrow> int list \<Rightarrow> int \<Rightarrow> dsfmt_t"
  dsfmt_jump :: "dsfmt_state \<Rightarrow> dsfmt_state"

text \<open>
  Modelled from the spec: \<open>dsfmt_jump_n(state, count)\<close>, declared in the module and
  defined elsewhere, applies the precomputed polynomial jump \<open>count\<close> times.
\<close>

definition dsfmt_jump_n :: "dsfmt_prims \<Rightarrow> dsfmt_state \<Rightarrow> int \<Rightarrow> dsfmt_state" where
  "dsfmt_jump_n Q st cnt = (dsfmt_jump Q ^^ nat cnt) st"

definition ds_reset_state_variables :: "dsfmt_state \<Rightarrow> dsfmt_state" where
  "ds_reset_state_variables r = r\<lparr>buffer_loc := DSFMT_N64\<rparr>"

text \<open>
  \<open>seed\<close>: an integer takes the \<open>operator.index\<close> path; a sequence makes
  \<open>operator.index\<close> raise the \<open>TypeError\<close> that the \<open>except\<close> clause handles, where the
  safe cast to \<open>int64\<close> refuses an empty or an out-of-range sequence.
\<close>

definition ds_seed :: "dsfmt_prims \<Rightarrow> (nat \<Rightarrow> int) \<Rightarrow> DSFMT \<Rightarrow> pyobj \<Rightarrow> DSFMT res" where
  "ds_seed Q ent self sd =
     (let r = ds_rng_state self in
      case sd of
        PyNone \<Rightarrow>
          Done (self\<lparr>ds_rng_state := ds_reset_state_variables
             (r\<lparr>dstate := dsfmt_init_by_array Q (dstate r)
                              (random_entropy ent (2 * DSFMT_N64)) (2 * DSFMT_N64)\<rparr>)\<rparr>)
      | PyInt i \<Rightarrow>
          if i > 2 ^ 32 - 1 \<or> i < 0 then Raised ValueError self
          else Done (self\<lparr>ds_rng_state := ds_reset_state_variables
                 (r\<lparr>dstate := dsfmt_init_gen_rand Q (dstate r) i\<rparr>)\<rparr>)
      | PyInts obj \<Rightarrow>
          if obj = [] \<or> list_ex (\<lambda>x. x < - (2 ^ 63) \<or> 2 ^ 63 \<le> x) obj then Raised TypeError self
          else if list_ex (\<lambda>x. x > 2 ^ 32 - 1 \<or> x < 0) obj then Raised ValueError self
          else Done (self\<lparr>ds_rng_state := ds_reset_state_variables
                 (r\<lparr>dstate := dsfmt_init_by_array Q (dstate r) obj (int (length obj))\<rparr>)\<rparr>)
      | _ \<Rightarrow> Raised TypeError self)"

text \<open>
  \<open>__init__\<close>: the state block comes from \<open>malloc\<close> (its content \<open>garbage\<close> is arbitrary),
  the buffer from \<open>calloc\<close>, and the other fields of a new object are zero.
\<close>

definition DSFMT_init :: "dsfmt_prims \<Rightarrow> (nat \<Rightarrow> int) \<Rightarrow> dsfmt_t \<Rightarrow> pyobj \<Rightarrow> error + DSFMT" where
  "DSFMT_init Q ent garbage sd =
     (case ds_seed Q ent
             \<lparr>ds_rng_state = \<lparr>dstate = garbage, ds_has_uint32 = 0, ds_uinteger = 0,
                               buffered_uniforms = replicate (nat DSFMT_N64) 0,
                               buffer_loc = DSFMT_N64\<rparr>\<rparr> sd of
        Raised e _ \<Rightarrow> Inl e
      | Done self \<Rightarrow> Inr self)"

definition ds_jump_inplace :: "dsfmt_prims \<Rightarrow> DSFMT \<Rightarrow> int \<Rightarrow> DSFMT res" where
  "ds_jump_inplace Q self iter =
     (if iter < 0 then Raised ValueError self
      else if 2 ^ 31 \<le> iter then Raised OverflowError self
      else Done (self\<lparr>ds_rng_state :=
                  ds_reset_state_variables (dsfmt_jump_n Q (ds_rng_state self) iter)\<rparr>))"

definition ds_jump :: "dsfmt_prims \<Rightarrow> DSFMT \<Rightarrow> int \<Rightarrow> DSFMT res" where
  "ds_jump Q self iter =
     (case as_intp iter of Inl e \<Rightarrow> Raised e self | Inr it \<Rightarrow> ds_jump_inplace Q self it)"

definition ds_state_getter :: "DSFMT \<Rightarrow> pyobj" where
  "ds_state_getter self =
     (let r = ds_rng_state self in
      PyDict
        [(''bit_generator'', PyStr ''DSFMT''),
         (''state'',
            PyDict [(''state'', PyInts (map (\<lambda>loc. status (dstate r) ! loc)
                                        [0..<nat (2 * DSFMT_N_PLUS_1)])),
                    (''idx'', PyInt (idx (dstate r)))]),
         (''buffer_loc'', PyInt (buffer_loc r)),
         (''buffered_uniforms'',
            PyDoubles (map (\<lambda>i. buffered_uniforms r ! i) [0..<nat DSFMT_N64]))])"

text \<open>
  The setter assigns \<open>buffered_uniforms[i]\<close> to a C \<open>double\<close>, one cell at a time, so each
  item is converted as it is read.  A Python \<open>int\<close> becomes the nearest double (ties to
  even) and raises \<open>OverflowError\<close> when it is too large for one; an index past the end
  raises \<open>IndexError\<close>, an integer index into a dictionary keyed by strings \<open>KeyError\<close>,
  and an object that is no sequence of numbers \<open>TypeError\<close>.  The cells written before
  the exception keep their new values.
\<close>

function bit_length :: "int \<Rightarrow> nat" where
  "bit_length a = (if a \<le> 0 then 0 else Suc (bit_length (a div 2)))"
  by pat_completeness auto
termination
  by (relation "measure nat") auto

declare bit_length.simps [simp del]

definition double_of_int :: "int \<Rightarrow> error + int" where
  "double_of_int x =
     (let a = \<bar>x\<bar>; s = (if x < 0 then 2 ^ 63 else 0) in
      if a = 0 then Inr 0
      else
        let e = bit_length a - 1 in
        if e \<le> 52 then Inr (s + (int e + 1023) * 2 ^ 52 + (a * 2 ^ (52 - e) - 2 ^ 52))
        else
          let sh = e - 52; q = a div 2 ^ sh; r = a mod 2 ^ sh;
              q' = (if r > 2 ^ (sh - 1) \<or> (r = 2 ^ (sh - 1) \<and> odd q) then q + 1 else q);
              e' = (if q' = 2 ^ 53 then e + 1 else e);
              m = (if q' = 2 ^ 53 then 0 else q' - 2 ^ 52)
          in if e' > 1023 then Inl OverflowError
             else Inr (s + (int e' + 1023) * 2 ^ 52 + m))"

definition item_double :: "pyobj \<Rightarrow> nat \<Rightarrow> error + int" where
  "item_double obj i =
     (case obj of
        PyDoubles xs \<Rightarrow> if i < length xs then Inr (xs ! i) else Inl IndexError
      | PyInts xs \<Rightarrow> if i < length xs then double_of_int (xs ! i) else Inl IndexError
      | PyStr s \<Rightarrow> if i < length s then Inl TypeError else Inl IndexError
      | PyDict d \<Rightarrow> Inl KeyError
      | _ \<Rightarrow> Inl TypeError)"

fun store_doubles :: "pyobj \<Rightarrow> nat list \<Rightarrow> int list \<Rightarrow> (error + unit) \<times> int list" where
  "store_doubles src [] dst = (Inr (), dst)"
| "store_doubles src (i # rest) dst =
     (case item_double src i of
        Inl e \<Rightarrow> (Inl e, dst)
      | Inr x \<Rightarrow> store_doubles src rest (dst[i := x]))"

definition ds_state_setter :: "DSFMT \<Rightarrow> pyobj \<Rightarrow> DSFMT res" where
  "ds_state_setter self v =
     (case v of
        PyDict d \<Rightarrow>
          if dict_get d ''bit_generator'' (PyStr '''') = PyStr ''DSFMT'' then
            check (getitem v ''state'') self (\<lambda>st.
            check (getitem st ''state'') self (\<lambda>s.
            check (check_state_array s (2 * DSFMT_N_PLUS_1) 64) self (\<lambda>state1.
            let r = ds_rng_state self;
                r1 = r\<lparr>dstate := (dstate r)\<lparr>status :=
                        map (\<lambda>loc. state1 ! loc) [0..<nat (2 * DSFMT_N_PLUS_1)]\<rparr>\<rparr>;
                self1 = self\<lparr>ds_rng_state := r1\<rparr>
            in
            check (getitem st ''idx'') self1 (\<lambda>i.
            check (as_int i) self1 (\<lambda>i1.
            let r2 = r1\<lparr>dstate := (dstate r1)\<lparr>idx := i1\<rparr>\<rparr>;
                self2 = self\<lparr>ds_rng_state := r2\<rparr>
            in
            check (getitem v ''buffered_uniforms'') self2 (\<lambda>bu.
            let (rc, buf) = store_doubles bu [0..<nat DSFMT_N64] (buffered_uniforms r2);
                r3 = r2\<lparr>buffered_uniforms := buf\<rparr>;
                self3 = self\<lparr>ds_rng_state := r3\<rparr>
            in
            check rc self3 (\<lambda>_.
            check (getitem v ''buffer_loc'') self3 (\<lambda>bl.
            check (as_int bl) self3 (\<lambda>bl1.
            Done (self\<lparr>ds_rng_state := r3\<lparr>buffer_loc := bl1\<rparr>\<rparr>))))))))))
          else Raised ValueError self
      | _ \<Rightarrow> Raised TypeError self)"

definition ds_jumped ::
  "dsfmt_prims \<Rightarrow> (nat \<Rightarrow> int) \<Rightarrow> dsfmt_t \<Rightarrow> DSFMT list \<Rightarrow> nat \<Rightarrow> int
     \<Rightarrow> (error + nat) \<times> DSFMT list" where
  "ds_jumped Q ent garbage h self iter =
     (case as_intp iter of
        Inl e \<Rightarrow> (Inl e, h)
      | Inr it \<Rightarrow>
          (case DSFMT_init Q ent garbage PyNone of
             Inl e \<Rightarrow> (Inl e, h)
           | Inr fresh \<Rightarrow>
               (let bit_generator = length h; h1 = h @ [fresh] in
                case ds_state_setter (h1 ! bit_generator) (ds_state_getter (h1 ! self)) of
                  Raised e g \<Rightarrow> (Inl e, h1[bit_generator := g])
                | Done g \<Rightarrow>
                    (case ds_jump_inplace Q g it of
                       Raised e g' \<Rightarrow> (Inl e, h1[bit_generator := g'])
                     | Done g' \<Rightarrow> (Inr bit_generator, h1[bit_generator := g'])))))"

definition ds_pull :: "dsfmt_prims \<Rightarrow> entry \<Rightarrow> DSFMT \<Rightarrow> int \<times> DSFMT" where
  "ds_pull Q e self =
     (let (x, r) = (case e of
                      Next_raw \<Rightarrow> dsfmt_next_raw Q (ds_rng_state self)
                    | Next_uint32 \<Rightarrow> dsfmt_next32 Q (ds_rng_state self)
                    | Next_uint64 \<Rightarrow> dsfmt_next64 Q (ds_rng_state self)
                    | Next_double \<Rightarrow> dsfmt_next_double Q (ds_rng_state self))
      in (x, self\<lparr>ds_rng_state := r\<rparr>))"

fun ds_draws :: "dsfmt_prims \<Rightarrow> entry list \<Rightarrow> DSFMT \<Rightarrow> int list \<times> DSFMT" where
  "ds_draws Q [] self = ([], self)"
| "ds_draws Q (e # es) self =
     (let (x, self1) = ds_pull Q e self; (xs, self2) = ds_draws Q es self1 in (x # xs, self2))"

section \<open>Invariants and reachable states\<close>

text \<open>
  What the constructor establishes and every operation keeps: a supported variant, the
  Python-level copies \<open>n\<close> and \<open>w\<close> equal to the struct's \<open>number\<close> and \<open>width\<close>, arrays
  of the variant's sizes with cells in the range of their C type, buffer cells outside
  the variant's window zero, and a function table resolved for the variant.
\<close>

definition supported :: "int \<Rightarrow> int \<Rightarrow> bool" where
  "supported N W = ((N = 2 \<or> N = 4) \<and> (W = 32 \<or> W = 64))"

definition in_range :: "int \<Rightarrow> int list \<Rightarrow> bool" where
  "in_range W xs = list_all (\<lambda>x. 0 \<le> x \<and> x < 2 ^ nat W) xs"

definition c_int :: "int \<Rightarrow> bool" where
  "c_int i = (- (2 ^ 31) \<le> i \<and> i < 2 ^ 31)"

definition rng_ok :: "int \<Rightarrow> int \<Rightarrow> philox_all_t \<Rightarrow> bool" where
  "rng_ok N W r =
     (number r = N \<and> width r = W \<and>
      length (ctr r) = nat N \<and> in_range W (ctr r) \<and>
      length (key r) = nat (N div 2) \<and> in_range W (key r) \<and>
      length (buffer r) = 4 \<and> in_range W (buffer r) \<and>
      list_all (\<lambda>x. x = 0) (drop (nat N) (buffer r)) \<and>
      c_int (buffer_pos r) \<and> c_int (has_uint32 r) \<and>
      0 \<le> uinteger r \<and> uinteger r < 2 ^ 32)"

definition philox_ok :: "Philox \<Rightarrow> bool" where
  "philox_ok self =
     (supported (self_n self) (self_w self) \<and>
      rng_ok (self_n self) (self_w self) (rng_state self) \<and>
      bitgen self = bitgen (setup_generator self))"

text \<open>
  The assumption on the C primitives: each keeps the struct well formed (it writes cells
  of the live variant only, with values of their C type).
\<close>

definition prims_ok :: "prims \<Rightarrow> bool" where
  "prims_ok P =
     (\<forall>N W r. supported N W \<longrightarrow> rng_ok N W r \<longrightarrow>
        rng_ok N W (snd (philox_next64 P N W r)) \<and>
        rng_ok N W (snd (philox_next32 P N W r)) \<and>
        rng_ok N W (snd (philox_next_double P N W r)) \<and>
        (\<forall>step c. rng_ok N W (philox_advance P N W r step c)))"

inductive reachable :: "prims \<Rightarrow> Philox \<Rightarrow> bool" for P :: prims where
  r_init: "Philox_init P ent sd counter ky num wid = Inr self \<Longrightarrow> reachable P self"
| r_seed: "reachable P self \<Longrightarrow> seed P ent self sd counter ky = Done self' \<Longrightarrow> reachable P self'"
| r_advance: "reachable P self \<Longrightarrow> advance P self delta c = Done self' \<Longrightarrow> reachable P self'"
| r_jump: "reachable P self \<Longrightarrow> jump P self iter = Done self' \<Longrightarrow> reachable P self'"
| r_output: "reachable P self \<Longrightarrow> pull P e self = Some (x, self') \<Longrightarrow> reachable P self'"

definition dsfmt_t_ok :: "dsfmt_t \<Rightarrow> bool" where
  "dsfmt_t_ok d =
     (length (status d) = nat (2 * DSFMT_N_PLUS_1) \<and> in_range 64 (status d) \<and> c_int (idx d))"

definition ds_ok :: "dsfmt_state \<Rightarrow> bool" where
  "ds_ok r =
     (dsfmt_t_ok (dstate r) \<and> length (buffered_uniforms r) = nat DSFMT_N64 \<and>
      c_int (buffer_loc r))"

definition dsfmt_prims_ok :: "dsfmt_prims \<Rightarrow> bool" where
  "dsfmt_prims_ok Q =
     ((\<forall>d s. dsfmt_t_ok (dsfmt_init_gen_rand Q d s)) \<and>
      (\<forall>d k l. dsfmt_t_ok (dsfmt_init_by_array Q d k l)) \<and>
      (\<forall>r. ds_ok r \<longrightarrow>
         ds_ok (dsfmt_jump Q r) \<and>
         ds_ok (snd (dsfmt_next_double Q r)) \<and> ds_ok (snd (dsfmt_next64 Q r)) \<and>
         ds_ok (snd (dsfmt_next32 Q r)) \<and> ds_ok (snd (dsfmt_next_raw Q r))))"

inductive ds_reachable :: "dsfmt_prims \<Rightarrow> DSFMT \<Rightarrow> bool" for Q :: dsfmt_prims where
  d_init: "DSFMT_init Q ent garbage sd = Inr self \<Longrightarrow> ds_reachable Q self"
| d_seed: "ds_reachable Q self \<Longrightarrow> ds_seed Q ent self sd = Done self' \<Longrightarrow> ds_reachable Q self'"
| d_jump: "ds_reachable Q self \<Longrightarrow> ds_jump Q self iter = Done self' \<Longrightarrow> ds_reachable Q self'"
| d_output: "ds_reachable Q self \<Longrightarrow> ds_pull Q e self = (x, self') \<Longrightarrow> ds_reachable Q self'"

section \<open>Reference primitives\<close>

text \<open>
  One concrete choice of the primitives, used to instantiate the general theorems at
  concrete inputs.  It follows the buffering protocol the engines describe (a block of
  \<open>N\<close> words per counter value, served from the buffer; a cached upper half for 32-bit
  requests; the counter as a little-endian number that wraps), with a plain affine map
  standing where the round function of each algorithm is.
\<close>

definition ref_block :: "int \<Rightarrow> int \<Rightarrow> int list \<Rightarrow> int list \<Rightarrow> int list" where
  "ref_block N W c k =
     map (\<lambda>i. (c ! i * 15183679468541472403 + k ! (i div 2) + int i) mod 2 ^ nat W) [0..<nat N]"

definition ref_next :: "int \<Rightarrow> int \<Rightarrow> philox_all_t \<Rightarrow> int \<times> philox_all_t" where
  "ref_next N W r =
     (if 0 \<le> buffer_pos r \<and> buffer_pos r < N then
        (buffer r ! nat (buffer_pos r), r\<lparr>buffer_pos := buffer_pos r + 1\<rparr>)
      else
        (let blk = ref_block N W (ctr r) (key r) in
         (blk ! 0,
          r\<lparr>ctr := words_of ((from_words (nat W) (ctr r) + 1) mod 2 ^ nat (N * W)) (nat W) (nat N),
            buffer := write_buffer N W blk (buffer r),
            buffer_pos := 1\<rparr>)))"

definition ref_next64 :: "int \<Rightarrow> int \<Rightarrow> philox_all_t \<Rightarrow> int \<times> philox_all_t" where
  "ref_next64 N W r =
     (if W = 64 then ref_next N W r
      else (let (lo, r1) = ref_next N W r; (hi, r2) = ref_next N W r1 in (lo + 2 ^ 32 * hi, r2)))"

definition ref_next32 :: "int \<Rightarrow> int \<Rightarrow> philox_all_t \<Rightarrow> int \<times> philox_all_t" where
  "ref_next32 N W r =
     (if W = 32 then ref_next N W r
      else if has_uint32 r \<noteq> 0 then (uinteger r, r\<lparr>has_uint32 := 0\<rparr>)
      else (let (x, r1) = ref_next N W r
            in (x mod 2 ^ 32, r1\<lparr>has_uint32 := 1, uinteger := x div 2 ^ 32 mod 2 ^ 32\<rparr>)))"

definition ref_next_double :: "int \<Rightarrow> int \<Rightarrow> philox_all_t \<Rightarrow> int \<times> philox_all_t" where
  "ref_next_double N W r = (let (x, r1) = ref_next64 N W r in (x div 2 ^ 11, r1))"

definition ref_advance :: "int \<Rightarrow> int \<Rightarrow> philox_all_t \<Rightarrow> int list \<Rightarrow> bool \<Rightarrow> philox_all_t" where
  "ref_advance N W r step use_carry =
     (let total = from_words (nat W) step;
          c = from_words (nat W) (ctr r)
      in
      if use_carry then
        (let pos0 = (if 0 \<le> buffer_pos r \<and> buffer_pos r < N then buffer_pos r else N);
             newabs = (c - 1) * N + pos0 + total;
             cprev = words_of ((newabs div N) mod 2 ^ nat (N * W)) (nat W) (nat N)
         in r\<lparr>ctr := words_of ((newabs div N + 1) mod 2 ^ nat (N * W)) (nat W) (nat N),
              buffer := write_buffer N W (ref_block N W cprev (key r)) (buffer r),
              buffer_pos := newabs mod N\<rparr>)
      else
        r\<lparr>ctr := words_of ((c + total div N) mod 2 ^ nat (N * W)) (nat W) (nat N)\<rparr>)"

definition ref_prims :: prims where
  "ref_prims =
     \<lparr>philox_next64 = ref_next64, philox_next32 = ref_next32,
      philox_next_double = ref_next_double, philox_advance = ref_advance,
      c_seed_by_array = (\<lambda>sd cnt i. from_words 64 sd * 11400714819323198485 + int i * 13787848793156543929 + 1)\<rparr>"

definition ref_fill :: "int \<Rightarrow> dsfmt_t" where
  "ref_fill s =
     \<lparr>status = map (\<lambda>i. (s * 1812433253 + int i) mod 2 ^ 64) [0..<nat (2 * DSFMT_N_PLUS_1)],
      idx = DSFMT_N64\<rparr>"

definition ref_ds_next :: "dsfmt_state \<Rightarrow> int \<times> dsfmt_state" where
  "ref_ds_next r =
     (if 0 \<le> buffer_loc r \<and> buffer_loc r < DSFMT_N64 then
        (buffered_uniforms r ! nat (buffer_loc r), r\<lparr>buffer_loc := buffer_loc r + 1\<rparr>)
      else
        (let st = map (\<lambda>x. (x * 5 + 1) mod 2 ^ 64) (status (dstate r));
             buf = take (nat DSFMT_N64) st
         in (buf ! 0,
             r\<lparr>dstate := (dstate r)\<lparr>status := st\<rparr>, buffered_uniforms := buf, buffer_loc := 1\<rparr>)))"

definition ref_dsfmt_prims :: dsfmt_prims where
  "ref_dsfmt_prims =
     \<lparr>dsfmt_next_double = ref_ds_next, dsfmt_next64 = ref_ds_next,
      dsfmt_next32 = (\<lambda>r. let (x, r1) = ref_ds_next r in (x div 2 ^ 16 mod 2 ^ 32, r1)),
      dsfmt_next_raw = ref_ds_next,
      dsfmt_init_gen_rand = (\<lambda>d s. ref_fill s),
      dsfmt_init_by_array = (\<lambda>d k l. ref_fill (from_words 32 k + l)),
      dsfmt_jump = (\<lambda>r. r\<lparr>dstate := (dstate r)\<lparr>status :=
                          map (\<lambda>x. (x * 3 + 7) mod 2 ^ 64) (status (dstate r))\<rparr>\<rparr>)\<rparr>"

section \<open>Concrete instances\<close>

text \<open>
  \<open>demo_philox\<close> is \<open>Philox(key=5)\<close>; \<open>demo_snapshot\<close> is a state dictionary of the
  shape the getter produces, taken after one 32-bit draw, and \<open>demo_restored\<close> is the
  instance after \<open>demo_philox.state = demo_snapshot\<close>.
\<close>

definition demo_philox :: Philox where
  "demo_philox =
     \<lparr>rng_state = \<lparr>ctr = [0, 0, 0, 0], key = [5, 0], buffer_pos = 4, buffer = [0, 0, 0, 0],
                   has_uint32 = 0, uinteger = 0, number = 4, width = 64\<rparr>,
      self_n = 4, self_w = 64,
      bitgen = \<lparr>next_uint64 = philox4x64_uint64, next_uint32 = philox4x64_uint32,
                next_double = philox4x64_double, next_raw = philox4x64_uint64\<rparr>\<rparr>"

definition demo_snapshot :: pyobj where
  "demo_snapshot =
     PyDict [(''bit_generator'', PyStr ''Philox''),
             (''state'', PyDict [(''counter'', PyInts [1, 0, 0, 0]), (''key'', PyInts [5, 0])]),
             (''buffer'', PyInts [11, 12, 13, 14]),
             (''buffer_pos'', PyInt 1),
             (''has_uint32'', PyInt 1),
             (''uinteger'', PyInt 7),
             (''number'', PyInt 4),
             (''width'', PyInt 64)]"

definition demo_restored :: Philox where
  "demo_restored =
     \<lparr>rng_state = \<lparr>ctr = [1, 0, 0, 0], key = [5, 0], buffer_pos = 1, buffer = [11, 12, 13, 14],
                   has_uint32 = 1, uinteger = 7, number = 4, width = 64\<rparr>,
      self_n = 4, self_w = 64,
      bitgen = \<lparr>next_uint64 = philox4x64_uint64, next_uint32 = philox4x64_uint32,
                next_double = philox4x64_double, next_raw = philox4x64_uint64\<rparr>\<rparr>"



text \<open>The instance an operation leaves behind, whether it returned or raised.\<close>

fun res_state :: "'a res \<Rightarrow> 'a" where
  "res_state (Done s) = s"
| "res_state (Raised e s) = s"

text \<open>
  The four-function binding of the variant \<open>NxW\<close>: the wrappers named after it, with
  \<open>next_raw\<close> the 64-bit function on a 64-bit variant and the widened 32-bit one on a
  32-bit variant.
\<close>

definition variant_table :: "int \<Rightarrow> int \<Rightarrow> bitgen_t" where
  "variant_table N W =
     (if N = 4 \<and> W = 64 then
        \<lparr>next_uint64 = philox4x64_uint64, next_uint32 = philox4x64_uint32,
         next_double = philox4x64_double, next_raw = philox4x64_uint64\<rparr>
      else if N = 2 \<and> W = 64 then
        \<lparr>next_uint64 = philox2x64_uint64, next_uint32 = philox2x64_uint32,
         next_double = philox2x64_double, next_raw = philox2x64_uint64\<rparr>
      else if N = 4 \<and> W = 32 then
        \<lparr>next_uint64 = philox4x32_uint64, next_uint32 = philox4x32_uint32,
         next_double = philox4x32_double, next_raw = philox4x32_raw\<rparr>
      else
        \<lparr>next_uint64 = philox2x32_uint64, next_uint32 = philox2x32_uint32,
         next_double = philox2x32_double, next_raw = philox2x32_raw\<rparr>)"

text \<open>
  A 2x32 instance, and a state dictionary of the previous version, without \<open>number\<close> and
  \<open>width\<close>, for it to restore.
\<close>

definition demo_philox_2x32 :: Philox where
  "demo_philox_2x32 =
     \<lparr>rng_state = \<lparr>ctr = [0, 0], key = [9], buffer_pos = 4, buffer = [0, 0, 0, 0],
                   has_uint32 = 0, uinteger = 0, number = 2, width = 32\<rparr>,
      self_n = 2, self_w = 32,
      bitgen = \<lparr>next_uint64 = philox2x32_uint64, next_uint32 = philox2x32_uint32,
                next_double = philox2x32_double, next_raw = philox2x32_raw\<rparr>\<rparr>"

definition legacy_snapshot :: "(string \<times> pyobj) list" where
  "legacy_snapshot =
     [(''bit_generator'', PyStr ''Philox''),
      (''state'', PyDict [(''counter'', PyInts [1, 0, 0, 0]), (''key'', PyInts [5, 0])]),
      (''buffer'', PyInts [11, 12, 13, 14]),
      (''buffer_pos'', PyInt 1),
      (''has_uint32'', PyInt 1),
      (''uinteger'', PyInt 7)]"

text \<open>\<open>demo_dsfmt\<close> is \<open>DSFMT(1)\<close> under the reference primitives.\<close>

definition demo_dsfmt :: DSFMT where
  "demo_dsfmt =
     \<lparr>ds_rng_state = \<lparr>dstate = ref_fill 1, ds_has_uint32 = 0, ds_uinteger = 0,
                      buffered_uniforms = replicate (nat DSFMT_N64) 0,
                      buffer_loc = DSFMT_N64\<rparr>\<rparr>"

text \<open>\<open>demo_philox\<close> after one \<open>next_uint32\<close> under the reference primitives.\<close>

definition demo_drawn :: Philox where
  "demo_drawn =
     \<lparr>rng_state = \<lparr>ctr = [1, 0, 0, 0], key = [5, 0], buffer_pos = 1, buffer = [5, 6, 2, 3],
                   has_uint32 = 1, uinteger = 0, number = 4, width = 64\<rparr>,
      self_n = 4, self_w = 64,
      bitgen = \<lparr>next_uint64 = philox4x64_uint64, next_uint32 = philox4x64_uint32,
                next_double = philox4x64_double, next_raw = philox4x64_uint64\<rparr>\<rparr>"

text \<open>\<open>demo_seeded\<close> is \<open>Philox(1234, number=2, width=32)\<close> under the reference primitives.\<close>

definition demo_seeded :: Philox where
  "demo_seeded =
     \<lparr>rng_state = \<lparr>ctr = [0, 0], key = [2500468027], buffer_pos = 4, buffer = [0, 0, 0, 0],
                   has_uint32 = 0, uinteger = 0, number = 2, width = 32\<rparr>,
      self_n = 2, self_w = 32,
      bitgen = \<lparr>next_uint64 = philox2x32_uint64, next_uint32 = philox2x32_uint32,
                next_double = philox2x32_double, next_raw = philox2x32_raw\<rparr>\<rparr>"


definition demo_jumped_back :: Philox where
  "demo_jumped_back =
     \<lparr>rng_state = \<lparr>ctr = [0, 0, 18446744073709551615, 18446744073709551615], key = [5, 0],
                   buffer_pos = 4, buffer = [0, 0, 0, 0],
                   has_uint32 = 0, uinteger = 0, number = 4, width = 64\<rparr>,
      self_n = 4, self_w = 64,
      bitgen = \<lparr>next_uint64 = philox4x64_uint64, next_uint32 = philox4x64_uint32,
                next_double = philox4x64_double, next_raw = philox4x64_uint64\<rparr>\<rparr>"

text \<open>A fresh DSFMT instance after the setter has copied the snapshot of \<open>src\<close> into it.\<close>

definition ds_copy :: "DSFMT \<Rightarrow> DSFMT \<Rightarrow> DSFMT" where
  "ds_copy fresh src =
     fresh\<lparr>ds_rng_state := (ds_rng_state fresh)\<lparr>dstate := dstate (ds_rng_state src),
              buffered_uniforms := buffered_uniforms (ds_rng_state src),
              buffer_loc := buffer_loc (ds_rng_state src)\<rparr>\<rparr>"

text \<open>The exception an operation raised, if it raised one.\<close>

fun res_error :: "'a res \<Rightarrow> error option" where
  "res_error (Done s) = None"
| "res_error (Raised e s) = Some e"

text \<open>
  The snapshot of \<open>demo_philox\<close> with its \<open>number\<close> and \<open>width\<close> entries changed to 2 and
  32: the arrays keep the lengths (and the 64-bit words) of the 4x64 variant.
\<close>

definition resized_snapshot :: pyobj where
  "resized_snapshot =
     PyDict [(''bit_generator'', PyStr ''Philox''),
             (''state'', PyDict [(''counter'', PyInts [0, 0, 0, 0]), (''key'', PyInts [5, 0])]),
             (''buffer'', PyInts [0, 0, 0, 0]),
             (''buffer_pos'', PyInt 4),
             (''has_uint32'', PyInt 0),
             (''uinteger'', PyInt 0),
             (''number'', PyInt 2),
             (''width'', PyInt 32)]"

text \<open>
  A state dictionary with \<open>number = 3\<close> and no \<open>width\<close> entry, its arrays of the lengths
  that go with \<open>number = 3\<close>.
\<close>

definition odd_snapshot :: pyobj where
  "odd_snapshot =
     PyDict [(''bit_generator'', PyStr ''Philox''),
             (''state'', PyDict [(''counter'', PyInts [0, 0, 0]), (''key'', PyInts [0])]),
             (''buffer'', PyInts [0, 0, 0]),
             (''buffer_pos'', PyInt 4),
             (''has_uint32'', PyInt 0),
             (''uinteger'', PyInt 0),
             (''number'', PyInt 3)]"

text \<open>\<open>demo_dsfmt\<close> after one \<open>next_double\<close> under the reference primitives.\<close>

definition demo_dsfmt_drawn :: DSFMT where
  "demo_dsfmt_drawn = snd (ds_pull ref_dsfmt_prims Next_double demo_dsfmt)"

section \<open>The leftover half of a DSFMT instance\<close>

text \<open>
  The DSFMT module never writes \<open>has_uint32\<close> and \<open>uinteger\<close>: they are zero in a new
  object, and neither \<open>seed\<close> nor the state setter nor \<open>jump\<close> assigns them.
  \<open>dsfmt_half_unused Q\<close> says that the C functions leave the two fields alone as well.
  \<open>ds_made Q\<close> holds of every instance the operations of the class produce: one that was
  constructed and then seeded, jumped, set from a dictionary or drawn from, whether the
  operation returned or raised (\<open>jumped\<close> builds its result by these steps).
\<close>

definition leftover_half :: "dsfmt_state \<Rightarrow> int \<times> int" where
  "leftover_half r = (ds_has_uint32 r, ds_uinteger r)"

definition dsfmt_half_unused :: "dsfmt_prims \<Rightarrow> bool" where
  "dsfmt_half_unused Q =
     (\<forall>r. leftover_half (dsfmt_jump Q r) = leftover_half r \<and>
          leftover_half (snd (dsfmt_next_double Q r)) = leftover_half r \<and>
          leftover_half (snd (dsfmt_next64 Q r)) = leftover_half r \<and>
          leftover_half (snd (dsfmt_next32 Q r)) = leftover_half r \<and>
          leftover_half (snd (dsfmt_next_raw Q r)) = leftover_half r)"

inductive ds_made :: "dsfmt_prims \<Rightarrow> DSFMT \<Rightarrow> bool" for Q :: dsfmt_prims where
  m_init: "DSFMT_init Q ent garbage sd = Inr self \<Longrightarrow> ds_made Q self"
| m_seed: "ds_made Q self \<Longrightarrow> ds_made Q (res_state (ds_seed Q ent self sd))"
| m_jump: "ds_made Q self \<Longrightarrow> ds_made Q (res_state (ds_jump Q self iter))"
| m_jump_inplace: "ds_made Q self \<Longrightarrow> ds_made Q (res_state (ds_jump_inplace Q self iter))"
| m_set: "ds_made Q self \<Longrightarrow> ds_made Q (res_state (ds_state_setter self v))"
| m_output: "ds_made Q self \<Longrightarrow> ds_made Q (snd (ds_pull Q e self))"

section \<open>Facts about the helpers\<close>

lemma wrap_int_bounds: "0 \<le> wrap_int d b" "wrap_int d b < 2 ^ nat b"
  by (simp_all add: wrap_int_def)

lemma step_array_ok:
  assumes "supported N W"
  shows "\<exists>a. int_to_array (wrap_int d (N * W + N div 2)) (Some ((N + 1) * W)) W = Inr a"
proof -
  have le: "(2::int) ^ nat (N * W + N div 2) \<le> 2 ^ nat ((N + 1) * W)"
    using assms by (intro power_increasing) (auto simp: supported_def)
  have "wrap_int d (N * W + N div 2) < 2 ^ nat ((N + 1) * W)"
    using wrap_int_bounds(2)[of d "N * W + N div 2"] le by linarith
  then show ?thesis
    using assms wrap_int_bounds(1)[of d "N * W + N div 2"]
    by (auto simp: int_to_array_def supported_def)
qed

lemma replicate_4: "replicate 4 x = [x, x, x, x]"
  by (simp add: numeral_eq_Suc)

lemma demo_philox_constructed:
  "Philox_init ref_prims (\<lambda>_. 0) PyNone PyNone (PyInt 5) 4 64 = Inr demo_philox"
  by (simp add: Philox_init_def seed_def new_philox_def check_def object_to_int_def
      seed_words_def int_to_array_def words_of_def view_def copy_cells_def
      reset_state_variables_def PHILOX_BUFFER_SIZE_def setup_generator_def demo_philox_def
      upt_conv_Cons replicate_4)

lemma demo_restored_set: "state_setter demo_philox demo_snapshot = Done demo_restored"
  by (simp add: state_setter_def demo_philox_def demo_snapshot_def demo_restored_def check_def
      dict_get_def getitem_def as_int_def as_uint32_def check_state_array_def
      setup_generator_def reset_state_variables_def PHILOX_BUFFER_SIZE_def write_buffer_def
      upt_conv_Cons replicate_4)

section \<open>Advance\<close>

text \<open>
  C6, as amended.  \<open>advance\<close> returns at once when \<open>delta\<close> is 0 and leaves the instance
  as it is.  For every other \<open>delta\<close> and every value of the \<open>counter\<close> flag, on a supported
  variant, \<open>advance\<close> succeeds, works in place (the variant and the function table stay),
  and leaves \<open>has_uint32 = 0\<close> and \<open>uinteger = 0\<close>.
\<close>

theorem advance_clears_leftover_half:
  assumes "delta \<noteq> 0" and "supported (self_n self) (self_w self)"
  shows "\<exists>self'. advance P self delta counter = Done self' \<and>
           has_uint32 (rng_state self') = 0 \<and> uinteger (rng_state self') = 0 \<and>
           self_n self' = self_n self \<and> self_w self' = self_w self \<and> bitgen self' = bitgen self"
proof -
  define cnt where "cnt = (case counter of None \<Rightarrow> True | Some c \<Rightarrow> c)"
  define d1 where "d1 = (if cnt then delta * self_n self else delta)"
  obtain a where a: "int_to_array (wrap_int d1 (self_n self * self_w self + self_n self div 2))
       (Some ((self_n self + 1) * self_w self)) (self_w self) = Inr a"
    using step_array_ok[OF assms(2)] by blast
  show ?thesis
    using assms(1) a
    by (simp add: advance_def check_def Let_def cnt_def d1_def reset_state_variables_def)
qed

theorem advance_clears_leftover_half_witness:
  "(5::int) \<noteq> 0 \<and> supported (self_n demo_restored) (self_w demo_restored) \<and>
   (\<exists>self'. advance ref_prims demo_restored 5 (Some False) = Done self' \<and>
      has_uint32 (rng_state self') = 0 \<and> uinteger (rng_state self') = 0 \<and>
      self_n self' = self_n demo_restored \<and> self_w self' = self_w demo_restored \<and>
      bitgen self' = bitgen demo_restored)"
proof -
  have s: "supported (self_n demo_restored) (self_w demo_restored)"
    by (simp add: supported_def demo_restored_def)
  have d: "(5::int) \<noteq> 0" by simp
  show ?thesis
    using advance_clears_leftover_half[OF d s, of ref_prims "Some False"] s by simp
qed

text \<open>
  C6 as stated fails at \<open>delta = 0\<close>: on the restored instance, which holds a cached
  half, \<open>advance(0, True)\<close> returns the instance unchanged, \<open>has_uint32\<close> still 1.
\<close>

theorem advance_zero_keeps_leftover_half:
  "state_setter demo_philox demo_snapshot = Done demo_restored \<and>
   advance ref_prims demo_restored 0 (Some True) = Done demo_restored \<and>
   has_uint32 (rng_state demo_restored) = 1 \<and> uinteger (rng_state demo_restored) = 7"
  by (simp add: demo_restored_set advance_def) (simp add: demo_restored_def)

text \<open>The guard on \<open>delta = 0\<close> holds for every instance and every flag.\<close>

lemma advance_zero_returns_self: "advance P self 0 counter = Done self"
  by (simp add: advance_def)





section \<open>State get and set\<close>

lemma setup_generator_fields [simp]:
  "self_n (setup_generator s) = self_n s" "self_w (setup_generator s) = self_w s"
  "rng_state (setup_generator s) = rng_state s"
  by (simp_all add: setup_generator_def)

lemma setup_generator_table:
  "supported (self_n s) (self_w s) \<Longrightarrow> bitgen (setup_generator s) = variant_table (self_n s) (self_w s)"
  by (auto simp: setup_generator_def variant_table_def supported_def)

lemma setup_generator_eq:
  "supported (self_n s) (self_w s) \<Longrightarrow>
   setup_generator s = s\<lparr>bitgen := variant_table (self_n s) (self_w s)\<rparr>"
  by (auto simp: setup_generator_def variant_table_def supported_def)

lemma reset_fields [simp]:
  "number (reset_state_variables r) = number r" "width (reset_state_variables r) = width r"
  "ctr (reset_state_variables r) = ctr r" "key (reset_state_variables r) = key r"
  "uinteger (reset_state_variables r) = 0" "has_uint32 (reset_state_variables r) = 0"
  "buffer_pos (reset_state_variables r) = PHILOX_BUFFER_SIZE"
  "buffer (reset_state_variables r) = replicate 4 0"
  by (simp_all add: reset_state_variables_def PHILOX_BUFFER_SIZE_def)


lemma write_buffer_zero:
  assumes "supported N W" "length xs = nat N" "in_range W xs"
  shows "write_buffer N W xs (replicate 4 0) = xs @ replicate (4 - nat N) 0"
proof -
  from assms(1) consider "N = 2" | "N = 4" by (auto simp: supported_def)
  then show ?thesis
  proof cases
    case 1
    with assms(2) obtain a b where xs: "xs = [a, b]"
      by (auto simp: length_Suc_conv numeral_eq_Suc)
    show ?thesis using assms(3) 1
      by (auto simp add: xs write_buffer_def in_range_def set_u32_def upt_conv_Cons replicate_4
          numeral_eq_Suc)
  next
    case 2
    with assms(2) obtain a b c d where xs: "xs = [a, b, c, d]"
      by (auto simp: length_Suc_conv numeral_eq_Suc)
    show ?thesis using assms(3) 2 assms(1)
      by (auto simp add: xs write_buffer_def in_range_def set_u32_def upt_conv_Cons replicate_4
          numeral_eq_Suc supported_def)
  qed
qed


lemma all_zero_replicate: "list_all (\<lambda>x. x = (0::int)) xs \<Longrightarrow> xs = replicate (length xs) 0"
  by (induction xs) auto

lemma in_range_take: "in_range W xs \<Longrightarrow> in_range W (take k xs)"
  by (auto simp: in_range_def list_all_iff dest: in_set_takeD)

lemma buffer_window:
  assumes "in_range W buf" "supported N W" "nat N \<le> length buf"
  shows "map (\<lambda>i. if W = 64 then buf ! i else get_u32 (buf ! i)) [0..<nat N] = take (nat N) buf"
proof (rule nth_equalityI)
  show "length (map (\<lambda>i. if W = 64 then buf ! i else get_u32 (buf ! i)) [0..<nat N]) = length (take (nat N) buf)"
    using assms(3) by simp
next
  fix i assume "i < length (map (\<lambda>i. if W = 64 then buf ! i else get_u32 (buf ! i)) [0..<nat N])"
  then have i: "i < nat N" by simp
  then have "i < length buf" using assms(3) by simp
  then have "0 \<le> buf ! i \<and> buf ! i < 2 ^ nat W"
    using assms(1) by (auto simp: in_range_def list_all_length)
  then show "map (\<lambda>i. if W = 64 then buf ! i else get_u32 (buf ! i)) [0..<nat N] ! i = take (nat N) buf ! i"
    using i assms(2) by (auto simp: get_u32_def supported_def)
qed

lemma check_state_array_ok:
  "int (length xs) = N \<Longrightarrow> in_range W xs \<Longrightarrow> check_state_array (PyInts xs) N W = Inr xs"
  by (simp add: check_state_array_def in_range_def)

lemma getter_eval:
  assumes "philox_ok s"
  shows "state_getter s =
     PyDict
        [(''bit_generator'', PyStr ''Philox''),
         (''state'', PyDict [(''counter'', PyInts (ctr (rng_state s))), (''key'', PyInts (key (rng_state s)))]),
         (''buffer'', PyInts (take (nat (self_n s)) (buffer (rng_state s)))),
         (''buffer_pos'', PyInt (buffer_pos (rng_state s))),
         (''has_uint32'', PyInt (has_uint32 (rng_state s))),
         (''uinteger'', PyInt (uinteger (rng_state s))),
         (''number'', PyInt (self_n s)),
         (''width'', PyInt (self_w s))]"
proof -
  from assms have ok: "rng_ok (self_n s) (self_w s) (rng_state s)" and sup: "supported (self_n s) (self_w s)"
    by (auto simp: philox_ok_def)
  have c: "map (\<lambda>i. ctr (rng_state s) ! i) [0..<nat (self_n s)] = ctr (rng_state s)"
    using ok map_nth[of "ctr (rng_state s)"] by (simp add: rng_ok_def)
  have k: "map (\<lambda>i. key (rng_state s) ! i) [0..<nat (self_n s div 2)] = key (rng_state s)"
    using ok map_nth[of "key (rng_state s)"] by (simp add: rng_ok_def)
  have le: "nat (self_n s) \<le> length (buffer (rng_state s))"
    using ok sup by (auto simp: rng_ok_def supported_def)
  have b: "map (\<lambda>i. if self_w s = 64 then buffer (rng_state s) ! i else get_u32 (buffer (rng_state s) ! i)) [0..<nat (self_n s)]
       = take (nat (self_n s)) (buffer (rng_state s))"
    using buffer_window[OF _ sup le] ok by (simp add: rng_ok_def)
  show ?thesis using ok
    by (simp add: state_getter_def Let_def c k b rng_ok_def)
qed

lemma setter_getter:
  assumes "philox_ok s"
  shows "state_setter a (state_getter s) = Done s"
proof -
  from assms have ok: "rng_ok (self_n s) (self_w s) (rng_state s)" and sup: "supported (self_n s) (self_w s)"
    and tab: "bitgen s = variant_table (self_n s) (self_w s)"
    using setup_generator_table[of s] by (auto simp: philox_ok_def)
  define r where "r = rng_state s"
  define N where "N = self_n s"
  define W where "W = self_w s"
  have ai: "as_int (PyInt N) = Inr N" "as_int (PyInt W) = Inr W"
    using sup by (auto simp: as_int_def supported_def N_def W_def)
  have le: "nat N \<le> length (buffer r)"
    using ok sup by (auto simp: rng_ok_def supported_def N_def W_def r_def)
  have len: "int (length (ctr r)) = N" "int (length (key r)) = N div 2"
    "int (length (take (nat N) (buffer r))) = N"
    using ok sup le by (auto simp: rng_ok_def supported_def N_def W_def r_def)
  have rg: "in_range W (ctr r)" "in_range W (key r)" "in_range W (take (nat N) (buffer r))"
    using ok by (simp_all add: rng_ok_def N_def W_def r_def in_range_take)
  have cs: "check_state_array (PyInts (ctr r)) N W = Inr (ctr r)"
    "check_state_array (PyInts (key r)) (N div 2) W = Inr (key r)"
    "check_state_array (PyInts (take (nat N) (buffer r))) N W = Inr (take (nat N) (buffer r))"
    using len rg by (simp_all add: check_state_array_ok)
  have wb: "write_buffer N W (take (nat N) (buffer r)) (replicate 4 0) = buffer r"
  proof -
    have "write_buffer N W (take (nat N) (buffer r)) (replicate 4 0)
        = take (nat N) (buffer r) @ replicate (4 - nat N) 0"
      using write_buffer_zero[of N W "take (nat N) (buffer r)"] sup le ok
      by (simp add: N_def W_def r_def rng_ok_def in_range_take)
    moreover have "drop (nat N) (buffer r) = replicate (4 - nat N) 0"
      using all_zero_replicate[of "drop (nat N) (buffer r)"] ok
      by (simp add: rng_ok_def N_def r_def)
    ultimately show ?thesis by (metis append_take_drop_id)
  qed
  have mp: "map (\<lambda>i. ctr r ! i) [0..<nat N] = ctr r" "map (\<lambda>i. key r ! i) [0..<nat (N div 2)] = key r"
    using ok map_nth[of "ctr r"] map_nth[of "key r"] by (simp_all add: rng_ok_def N_def W_def r_def)
  have sc: "as_int (PyInt (has_uint32 r)) = Inr (has_uint32 r)"
     "as_uint32 (PyInt (uinteger r)) = Inr (uinteger r)"
     "as_int (PyInt (buffer_pos r)) = Inr (buffer_pos r)"
    using ok by (auto simp: rng_ok_def c_int_def as_int_def as_uint32_def r_def)
  have nw: "number r = N" "width r = W" using ok by (auto simp: rng_ok_def N_def W_def r_def)
  have tb: "bitgen (setup_generator x) = bitgen s" if "self_n x = N" "self_w x = W" for x
    using that setup_generator_table[of x] sup tab by (simp add: N_def W_def)
  have fin: "setup_generator
       (a\<lparr>self_n := N, rng_state := (rng_state a)\<lparr>number := N, width := W\<rparr>, self_w := W\<rparr>)
       \<lparr>rng_state := reset_state_variables ((rng_state a)\<lparr>number := N, width := W\<rparr>)
          \<lparr>buffer := buffer r, ctr := ctr r, key := key r, has_uint32 := has_uint32 r,
             uinteger := uinteger r, buffer_pos := buffer_pos r\<rparr>\<rparr> = s"
    using sup tab nw
    apply (simp add: setup_generator_eq N_def[symmetric] W_def[symmetric])
    apply (simp add: reset_state_variables_def r_def)
    apply (cases s; cases a; cases "rng_state s"; cases "rng_state a")
    apply (simp add: N_def W_def)
    done
  show ?thesis
    unfolding getter_eval[OF assms] state_setter_def
    using fin
    by (simp add: dict_get_def getitem_def check_def Let_def N_def[symmetric] W_def[symmetric] r_def[symmetric]
        ai cs wb mp sc)
qed

text \<open>
  With a resulting pair \<open>(num, wid)\<close> that is one of the four variants, the instance has
  \<open>n = num\<close>, \<open>w = wid\<close> and the function table of that variant, whether the setter goes
  on to complete or raises on a later field.
\<close>

lemma setter_resolves_supported:
  assumes "dict_get d ''bit_generator'' (PyStr '''') = PyStr ''Philox''"
    and "map_of d ''number'' = None \<or> map_of d ''width'' = None"
    and "dict_get d ''number'' (PyInt 4) = PyInt num"
    and "dict_get d ''width'' (PyInt 64) = PyInt wid"
    and "supported num wid"
  shows "self_n (res_state (state_setter self (PyDict d))) = num \<and>
         self_w (res_state (state_setter self (PyDict d))) = wid \<and>
         number (rng_state (res_state (state_setter self (PyDict d)))) = num \<and>
         width (rng_state (res_state (state_setter self (PyDict d)))) = wid \<and>
         bitgen (res_state (state_setter self (PyDict d))) = variant_table num wid \<and>
         (map_of d ''number'' = None \<longrightarrow> num = 4) \<and>
         (map_of d ''width'' = None \<longrightarrow> wid = 64)"
proof -
  have ai: "as_int (PyInt num) = Inr num" "as_int (PyInt wid) = Inr wid"
    using assms(5) by (auto simp: as_int_def supported_def)
  have dflt: "(map_of d ''number'' = None \<longrightarrow> num = 4) \<and> (map_of d ''width'' = None \<longrightarrow> wid = 64)"
    using assms(3,4) by (auto simp: dict_get_def)
  have "self_n (res_state (state_setter self (PyDict d))) = num \<and>
         self_w (res_state (state_setter self (PyDict d))) = wid \<and>
         number (rng_state (res_state (state_setter self (PyDict d)))) = num \<and>
         width (rng_state (res_state (state_setter self (PyDict d)))) = wid \<and>
         bitgen (res_state (state_setter self (PyDict d))) = variant_table num wid"
    using assms(5)
    by (simp add: state_setter_def assms(1,3,4) ai check_def Let_def setup_generator_table
        split: sum.splits)
  with dflt show ?thesis by blast
qed

lemma legacy_restore:
  "state_setter demo_philox_2x32 (PyDict legacy_snapshot) = Done demo_restored"
  by (simp add: state_setter_def demo_philox_2x32_def legacy_snapshot_def demo_restored_def
      check_def dict_get_def getitem_def as_int_def as_uint32_def check_state_array_def
      setup_generator_def reset_state_variables_def PHILOX_BUFFER_SIZE_def write_buffer_def
      upt_conv_Cons replicate_4)

lemma ds_getter_eval:
  assumes "ds_ok (ds_rng_state s)"
  shows "ds_state_getter s =
      PyDict
        [(''bit_generator'', PyStr ''DSFMT''),
         (''state'',
            PyDict [(''state'', PyInts (status (dstate (ds_rng_state s)))),
                    (''idx'', PyInt (idx (dstate (ds_rng_state s))))]),
         (''buffer_loc'', PyInt (buffer_loc (ds_rng_state s))),
         (''buffered_uniforms'', PyDoubles (buffered_uniforms (ds_rng_state s)))]"
proof -
  have a: "map (\<lambda>loc. status (dstate (ds_rng_state s)) ! loc) [0..<nat (2 * DSFMT_N_PLUS_1)]
       = status (dstate (ds_rng_state s))"
    using assms map_nth[of "status (dstate (ds_rng_state s))"]
    by (simp add: ds_ok_def dsfmt_t_ok_def)
  have b: "map (\<lambda>i. buffered_uniforms (ds_rng_state s) ! i) [0..<nat DSFMT_N64]
       = buffered_uniforms (ds_rng_state s)"
    using assms map_nth[of "buffered_uniforms (ds_rng_state s)"]
    by (simp add: ds_ok_def)
  show ?thesis by (simp add: ds_state_getter_def Let_def a b)
qed

lemma store_doubles_from:
  "k \<le> n \<Longrightarrow> length xs = n \<Longrightarrow> length dst = n \<Longrightarrow> take k dst = take k xs \<Longrightarrow>
     store_doubles (PyDoubles xs) [k..<n] dst = (Inr (), xs)"
proof (induction "n - k" arbitrary: k dst)
  case 0
  then show ?case by simp
next
  case (Suc m)
  then have kn: "k < n" by simp
  have t: "take (Suc k) (dst[k := xs ! k]) = take (Suc k) xs"
    using Suc.prems kn by (simp add: take_Suc_conv_app_nth)
  have "store_doubles (PyDoubles xs) [Suc k..<n] (dst[k := xs ! k]) = (Inr (), xs)"
    using Suc.hyps(1)[of "Suc k" "dst[k := xs ! k]"] Suc.hyps(2) Suc.prems kn t by simp
  then show ?case
    using kn Suc.prems by (simp add: upt_conv_Cons item_double_def)
qed

lemma store_doubles_all:
  "length xs = n \<Longrightarrow> length dst = n \<Longrightarrow> store_doubles (PyDoubles xs) [0..<n] dst = (Inr (), xs)"
  using store_doubles_from[of 0 n xs dst] by simp

lemma ds_setter_getter:
  assumes "ds_ok (ds_rng_state s)" and "length (buffered_uniforms (ds_rng_state a)) = nat DSFMT_N64"
  shows "ds_state_setter a (ds_state_getter s) =
     Done (a\<lparr>ds_rng_state := (ds_rng_state a)\<lparr>dstate := dstate (ds_rng_state s),
              buffered_uniforms := buffered_uniforms (ds_rng_state s),
              buffer_loc := buffer_loc (ds_rng_state s)\<rparr>\<rparr>)"
proof -
  define r where "r = ds_rng_state s"
  have len: "int (length (status (dstate r))) = 2 * DSFMT_N_PLUS_1"
    using assms by (simp add: ds_ok_def dsfmt_t_ok_def r_def DSFMT_N_PLUS_1_def)
  have cs: "check_state_array (PyInts (status (dstate r))) (2 * DSFMT_N_PLUS_1) 64 = Inr (status (dstate r))"
    using len assms by (simp add: check_state_array_ok ds_ok_def dsfmt_t_ok_def r_def)
  have mp: "map (\<lambda>loc. status (dstate r) ! loc) [0..<nat (2 * DSFMT_N_PLUS_1)] = status (dstate r)"
    using assms map_nth[of "status (dstate r)"] by (simp add: ds_ok_def dsfmt_t_ok_def r_def)
  have cc: "store_doubles (PyDoubles (buffered_uniforms r)) [0..<nat DSFMT_N64] (buffered_uniforms (ds_rng_state a))
      = (Inr (), buffered_uniforms r)"
    using assms by (simp add: store_doubles_all ds_ok_def r_def)
  have sc: "as_int (PyInt (idx (dstate r))) = Inr (idx (dstate r))"
     "as_int (PyInt (buffer_loc r)) = Inr (buffer_loc r)"
    using assms by (auto simp: ds_ok_def dsfmt_t_ok_def c_int_def as_int_def r_def)
  show ?thesis
    unfolding ds_getter_eval[OF assms(1)] ds_state_setter_def
    by (simp add: dict_get_def getitem_def check_def Let_def r_def[symmetric] cs mp cc sc)
qed

lemma ds_setter_getter_self:
  assumes "ds_ok (ds_rng_state s)"
  shows "ds_state_setter s (ds_state_getter s) = Done s"
proof -
  have "length (buffered_uniforms (ds_rng_state s)) = nat DSFMT_N64"
    using assms by (simp add: ds_ok_def)
  from ds_setter_getter[OF assms this] show ?thesis by simp
qed

section \<open>Seeding and the buffer fields\<close>

lemma seed_Done_buffer:
  "seed P ent self sd counter ky = Done self' \<Longrightarrow>
      has_uint32 (rng_state self') = 0 \<and> uinteger (rng_state self') = 0 \<and>
      buffer_pos (rng_state self') = PHILOX_BUFFER_SIZE \<and>
      buffer (rng_state self') = replicate 4 0"
  by (auto simp: seed_def check_def Let_def split: sum.splits if_splits prod.splits)

lemma ds_seed_Done_buffer:
  "ds_seed Q ent ds dsd = Done ds' \<Longrightarrow> buffer_loc (ds_rng_state ds') = DSFMT_N64"
  by (auto simp: ds_seed_def ds_reset_state_variables_def Let_def split: pyobj.splits if_splits)

lemma setter_Done_scalars:
  "state_setter self v = Done self'' \<Longrightarrow>
      getitem v ''has_uint32'' = Inr (PyInt (has_uint32 (rng_state self''))) \<and>
      getitem v ''uinteger'' = Inr (PyInt (uinteger (rng_state self''))) \<and>
      getitem v ''buffer_pos'' = Inr (PyInt (buffer_pos (rng_state self'')))"
  by (simp add: state_setter_def check_def Let_def as_int_def as_uint32_def
      split: sum.splits if_splits pyobj.splits) auto

lemma ds_setter_Done_loc:
  "ds_state_setter ds dv = Done ds'' \<Longrightarrow>
      getitem dv ''buffer_loc'' = Inr (PyInt (buffer_loc (ds_rng_state ds'')))"
  by (simp add: ds_state_setter_def check_def Let_def as_int_def
      split: sum.splits if_splits pyobj.splits prod.splits) auto

lemma demo_dsfmt_ok: "ds_ok (ds_rng_state demo_dsfmt)"
  by (simp add: demo_dsfmt_def ds_ok_def dsfmt_t_ok_def ref_fill_def in_range_def list_all_iff
      c_int_def DSFMT_N64_def DSFMT_N_def DSFMT_N_PLUS_1_def)

lemma demo_reseed:
  "seed ref_prims (\<lambda>_. 0) demo_restored PyNone PyNone (PyInt 5) = Done demo_philox"
  by (simp add: seed_def demo_restored_def check_def object_to_int_def
      seed_words_def int_to_array_def words_of_def view_def copy_cells_def
      reset_state_variables_def PHILOX_BUFFER_SIZE_def demo_philox_def
      upt_conv_Cons replicate_4)

section \<open>What seeding establishes\<close>

lemma from_words_nonneg: "list_all (\<lambda>x. 0 \<le> x) xs \<Longrightarrow> 0 \<le> from_words w xs"
  by (induction xs) (auto simp: from_words_def)

lemma object_to_int_range:
  "object_to_int v bits = Inr (Some x) \<Longrightarrow> 0 \<le> x \<and> x < 2 ^ nat bits"
proof (cases v)
  case (PyInts xs)
  assume a: "object_to_int v bits = Inr (Some x)"
  with PyInts have 1: "\<not> list_ex (\<lambda>x. x < 0 \<or> 2 ^ 64 \<le> x) xs" and 2: "x = from_words 64 xs"
    and 3: "\<not> 2 ^ nat bits \<le> from_words 64 xs"
    by (auto simp: object_to_int_def split: if_splits)
  from 1 have "list_all (\<lambda>x. 0 \<le> x) xs"
    by (auto simp: list_ex_iff list_all_iff)
  then show ?thesis using from_words_nonneg 2 3 by auto
qed (auto simp: object_to_int_def split: if_splits)

lemma words_of_length [simp]: "length (words_of v w len) = len"
  by (simp add: words_of_def)

lemma words_of_in_range: "in_range (int w) (words_of v w len)"
  by (simp add: words_of_def in_range_def list_all_iff)

lemma int_to_array_ok:
  assumes "W = 32 \<or> W = 64" "0 \<le> v" "v < 2 ^ nat b"
  shows "int_to_array v (Some b) W = Inr (words_of v (nat W) (nat (b div W)))"
  using assms by (auto simp: int_to_array_def)

lemma split64_in_range:
  assumes "in_range 64 xs"
  shows "in_range 32 (concat (map (\<lambda>x. [x mod 2 ^ 32, x div 2 ^ 32]) xs))"
  using assms
proof (induction xs)
  case Nil
  then show ?case by (simp add: in_range_def)
next
  case (Cons a xs)
  then have a: "0 \<le> a" "a < 2 ^ 64" and r: "in_range 64 xs"
    by (auto simp: in_range_def)
  from a have "0 \<le> a div 2 ^ 32" "a div 2 ^ 32 < 2 ^ 32" by auto
  with Cons.IH[OF r] show ?case by (simp add: in_range_def)
qed

lemma split64_length:
  "length (concat (map (\<lambda>x. [x mod 2 ^ 32, x div (2 ^ 32 :: int)]) xs)) = 2 * length xs"
  by (induction xs) auto

lemma seed_by_array_props:
  "length (seed_by_array P a cnt) = nat cnt" "in_range 64 (seed_by_array P a cnt)"
  by (simp_all add: seed_by_array_def in_range_def list_all_iff)

lemma random_entropy_props:
  "length (random_entropy ent sz) = nat sz" "in_range 32 (random_entropy ent sz)"
  by (simp_all add: random_entropy_def in_range_def list_all_iff)

lemma join32_ok:
  "in_range 32 xs \<Longrightarrow> even (length xs) \<Longrightarrow>
   \<exists>ys. join32 xs = Inr ys \<and> 2 * length ys = length xs \<and> in_range 64 ys"
proof (induction xs rule: join32.induct)
  case 1
  then show ?case by (simp add: in_range_def)
next
  case (2 x)
  then show ?case by simp
next
  case (3 lo hi xs)
  then have r: "in_range 32 xs" and e: "even (length xs)"
    and b: "0 \<le> lo" "lo < 2 ^ 32" "0 \<le> hi" "hi < 2 ^ 32"
    by (auto simp: in_range_def)
  from "3.IH"[OF r e] obtain ys where ys: "join32 xs = Inr ys" "2 * length ys = length xs" "in_range 64 ys"
    by blast
  from b have "0 \<le> lo + 2 ^ 32 * hi" "lo + 2 ^ 32 * hi < 2 ^ 64" by auto
  with ys show ?case by (simp add: in_range_def)
qed

lemma seed_words_ok:
  assumes sup: "supported N W"
    and k: "k1 = None \<or> (\<exists>k. k1 = Some k \<and> 0 \<le> k \<and> k < 2 ^ nat (N div 2 * W))"
    and s: "s1 = None \<or> (\<exists>s. s1 = Some s \<and> 0 \<le> s)"
  shows "\<exists>sw. seed_words P ent N W s1 k1 = Inr sw \<and> nat (N div 2) \<le> length sw \<and> in_range W sw"
proof (cases k1)
  case (Some kk)
  with k have kk: "0 \<le> kk" "kk < 2 ^ nat (N div 2 * W)" by auto
  have W: "W = 32 \<or> W = 64" using sup by (simp add: supported_def)
  have d: "N div 2 * W div W = N div 2" using W by auto
  have nW: "int (nat W) = W" using W by auto
  show ?thesis
    using int_to_array_ok[OF W kk] W words_of_in_range[of "nat W" kk "nat (N div 2)"]
    by (auto simp: seed_words_def Some view_def d nW)
next
  case None
  note kn = None
  show ?thesis
  proof (cases s1)
    case (Some ss)
    with s have ss: "0 \<le> ss" by auto
    define cnt where "cnt = max ((N div 2) * (W div 32) div 2) 1"
    define a where "a = seed_by_array P (le_words64 ss) cnt"
    have la: "length a = nat cnt" and ra: "in_range 64 a"
      by (simp_all add: a_def seed_by_array_props)
    have sw: "seed_words P ent N W s1 k1 = view 64 (if W = 64 then 64 else 32) a"
      using ss by (simp add: seed_words_def kn Some int_to_array_def Let_def cnt_def a_def)
    from sup consider "W = 64" | "W = 32" by (auto simp: supported_def)
    then show ?thesis
    proof cases
      case 1
      have "nat (N div 2) \<le> nat cnt" using sup 1 by (auto simp: cnt_def supported_def)
      then show ?thesis using sw 1 la ra by (simp add: view_def)
    next
      case 2
      have "nat (N div 2) \<le> 2 * nat cnt" using sup 2 by (auto simp: cnt_def supported_def)
      then show ?thesis using sw 2 la split64_in_range[OF ra] split64_length[of a]
        by (simp add: view_def)
    qed
  next
    case None
    define e where "e = random_entropy ent ((N div 2) * (W div 32))"
    have le: "length e = nat ((N div 2) * (W div 32))" and re: "in_range 32 e"
      by (simp_all add: e_def random_entropy_props)
    have sw: "seed_words P ent N W s1 k1 = view 32 (if W = 64 then 64 else 32) e"
      by (simp add: seed_words_def kn None Let_def e_def)
    from sup consider "W = 64" | "W = 32" by (auto simp: supported_def)
    then show ?thesis
    proof cases
      case 1
      have ev: "even (length e)" using sup 1 le by (auto simp: supported_def)
      from join32_ok[OF re ev] obtain ys where ys: "join32 e = Inr ys" "2 * length ys = length e" "in_range 64 ys"
        by blast
      have "nat (N div 2) \<le> length ys" using ys(2) le sup 1 by (auto simp: supported_def)
      then show ?thesis using sw 1 ys by (simp add: view_def)
    next
      case 2
      have "nat (N div 2) \<le> length e" using le sup 2 by (auto simp: supported_def)
      then show ?thesis using sw 2 re by (simp add: view_def)
    qed
  qed
qed

lemma copy_cells_ok:
  "k \<le> length src \<Longrightarrow> copy_cells src k dst = (Inr (), take k src)"
  by (auto simp: copy_cells_def intro!: nth_equalityI)

lemma seed_cases:
  assumes sup: "supported (self_n self) (self_w self)"
  shows "(\<exists>e. seed P ent self sd counter ky = Raised e self) \<or>
         (\<exists>kw cw. seed P ent self sd counter ky =
              Done (self\<lparr>rng_state := reset_state_variables ((rng_state self)\<lparr>key := kw, ctr := cw\<rparr>)\<rparr>) \<and>
            length kw = nat (self_n self div 2) \<and> in_range (self_w self) kw \<and>
            length cw = nat (self_n self) \<and> in_range (self_w self) cw)"
proof -
  define N where "N = self_n self"
  define W where "W = self_w self"
  have W: "W = 32 \<or> W = 64" and N: "N = 2 \<or> N = 4" using sup by (auto simp: supported_def N_def W_def)
  show ?thesis
  proof (cases "object_to_int sd (N * W div 2)")
    case (Inl e)
    then show ?thesis by (simp add: seed_def check_def N_def W_def)
  next
    case s1: (Inr seed1)
    show ?thesis
    proof (cases "object_to_int ky (N div 2 * W)")
      case (Inl e)
      then show ?thesis using s1 by (simp add: seed_def check_def N_def W_def)
    next
      case k1: (Inr key1)
      show ?thesis
      proof (cases "object_to_int counter (N * W)")
        case (Inl e)
        then show ?thesis using s1 k1 by (simp add: seed_def check_def N_def W_def)
      next
        case c1: (Inr counter1)
        show ?thesis
        proof (cases "seed1 \<noteq> None \<and> key1 \<noteq> None")
          case True
          then show ?thesis using s1 k1 c1 by (auto simp: seed_def check_def N_def W_def)
        next
          case False
          have kk: "key1 = None \<or> (\<exists>k. key1 = Some k \<and> 0 \<le> k \<and> k < 2 ^ nat (N div 2 * W))"
            using object_to_int_range[of ky "N div 2 * W"] k1 by (cases key1) auto
          have ss: "seed1 = None \<or> (\<exists>s. seed1 = Some s \<and> 0 \<le> s)"
            using object_to_int_range[of sd "N * W div 2"] s1 by (cases seed1) auto
          from seed_words_ok[OF sup[unfolded N_def[symmetric] W_def[symmetric]] kk ss, of P ent]
          obtain sw where sw: "seed_words P ent N W seed1 key1 = Inr sw"
             "nat (N div 2) \<le> length sw" "in_range W sw" by blast
          define c where "c = (case counter1 of None \<Rightarrow> 0 | Some c \<Rightarrow> c)"
          have cr: "0 \<le> c" "c < 2 ^ nat (N * W)"
            using object_to_int_range[of counter "N * W"] c1 by (cases counter1; simp add: c_def)+
          have d: "N * W div W = N" using W by auto
          have ca: "int_to_array c (Some (N * W)) W = Inr (words_of c (nat W) (nat N))"
            using int_to_array_ok[OF W cr] by (simp add: d)
          have nW: "int (nat W) = W" using W by auto
          have rc: "in_range W (words_of c (nat W) (nat N))"
            using words_of_in_range[of "nat W" c "nat N"] W by auto
          have D: "seed P ent self sd counter ky =
              Done (self\<lparr>rng_state := reset_state_variables
                 ((rng_state self)\<lparr>key := take (nat (N div 2)) sw, ctr := words_of c (nat W) (nat N)\<rparr>)\<rparr>)"
            using s1 k1 c1 False sw ca
            by (simp add: seed_def check_def N_def[symmetric] W_def[symmetric] Let_def
                copy_cells_ok c_def[symmetric])
          have l1: "length (take (nat (N div 2)) sw) = nat (N div 2)" using sw(2) by simp
          have l2: "in_range W (take (nat (N div 2)) sw)" using sw(3) by (rule in_range_take)
          have l3: "length (words_of c (nat W) (nat N)) = nat N" by simp
          show ?thesis
            apply (rule disjI2)
            apply (rule exI[of _ "take (nat (N div 2)) sw"])
            apply (rule exI[of _ "words_of c (nat W) (nat N)"])
            using D l1 l2 l3 rc unfolding N_def W_def by blast
        qed
      qed
    qed
  qed
qed

lemma reset_rng_ok:
  assumes "supported N W" "number r = N" "width r = W" "length kw = nat (N div 2)" "in_range W kw"
    "length cw = nat N" "in_range W cw"
  shows "rng_ok N W (reset_state_variables (r\<lparr>key := kw, ctr := cw\<rparr>))"
  using assms
  by (auto simp: rng_ok_def reset_state_variables_def PHILOX_BUFFER_SIZE_def c_int_def in_range_def
      replicate_4 supported_def)

lemma seed_Done_ok:
  assumes "supported (self_n self) (self_w self)"
    "number (rng_state self) = self_n self" "width (rng_state self) = self_w self"
    "seed P ent self sd counter ky = Done self'"
  shows "rng_ok (self_n self) (self_w self) (rng_state self') \<and> self_n self' = self_n self \<and>
         self_w self' = self_w self \<and> bitgen self' = bitgen self"
  using seed_cases[OF assms(1), of P ent sd counter ky] assms(2,3,4)
    reset_rng_ok[OF assms(1,2,3)]
  by auto

lemma seed_Raised_unchanged:
  assumes "supported (self_n self) (self_w self)" "seed P ent self sd counter ky = Raised e self'"
  shows "self' = self"
  using seed_cases[OF assms(1), of P ent sd counter ky] assms(2) by auto

lemma init_ok:
  assumes "Philox_init P ent sd counter ky num wid = Inr self"
  shows "philox_ok self"
proof -
  define s0 where "s0 = new_philox\<lparr>self_n := num, self_w := wid,
                            rng_state := (rng_state new_philox)\<lparr>number := num, width := wid\<rparr>\<rparr>"
  from assms have sup: "supported num wid"
    by (auto simp: Philox_init_def supported_def split: if_splits)
  from assms sup obtain s1 where s1: "seed P ent s0 sd counter ky = Done s1" "self = setup_generator s1"
    by (auto simp: Philox_init_def supported_def s0_def split: if_splits res.splits)
  have "rng_ok num wid (rng_state s1) \<and> self_n s1 = num \<and> self_w s1 = wid"
    using seed_Done_ok[of s0 P ent sd counter ky s1] sup s1(1) by (simp add: s0_def)
  then show ?thesis using sup s1(2)
    by (simp add: philox_ok_def setup_generator_eq)
qed

lemma seed_ok:
  assumes "philox_ok self" "seed P ent self sd counter ky = Done self'"
  shows "philox_ok self'"
proof -
  from assms(1) have sup: "supported (self_n self) (self_w self)"
    and nw: "number (rng_state self) = self_n self" "width (rng_state self) = self_w self"
    and t: "bitgen self = variant_table (self_n self) (self_w self)"
    by (auto simp: philox_ok_def rng_ok_def setup_generator_eq)
  from seed_Done_ok[OF sup nw assms(2)] sup t show ?thesis
    by (simp add: philox_ok_def setup_generator_eq)
qed

lemma advance_ok:
  assumes "prims_ok P" "philox_ok self" "advance P self delta c = Done self'"
  shows "philox_ok self'"
proof (cases "delta = 0")
  case True
  with assms show ?thesis by (simp add: advance_def)
next
  case False
  from assms(2) have sup: "supported (self_n self) (self_w self)"
    and ok: "rng_ok (self_n self) (self_w self) (rng_state self)"
    and t: "bitgen self = variant_table (self_n self) (self_w self)"
    by (auto simp: philox_ok_def setup_generator_eq)
  have adv: "rng_ok (self_n self) (self_w self) (philox_advance P (self_n self) (self_w self) (rng_state self) st u)" for st u
    using assms(1) sup ok by (auto simp: prims_ok_def)
  have keep: "rng_ok N W r \<Longrightarrow> rng_ok N W (r\<lparr>uinteger := 0, has_uint32 := 0\<rparr>)" for N W r
    by (auto simp: rng_ok_def c_int_def)
  have rst: "supported N W \<Longrightarrow> rng_ok N W r \<Longrightarrow> rng_ok N W (reset_state_variables r)" for N W r
    by (auto simp: rng_ok_def reset_state_variables_def PHILOX_BUFFER_SIZE_def c_int_def in_range_def
      replicate_4 supported_def)
  obtain a where a: "int_to_array (wrap_int (if (case c of None \<Rightarrow> True | Some c \<Rightarrow> c) then delta * self_n self else delta)
         (self_n self * self_w self + self_n self div 2))
       (Some ((self_n self + 1) * self_w self)) (self_w self) = Inr a"
    using step_array_ok[OF sup] by blast
  from sup consider "self_n self = 2 \<and> self_w self = 32" | "self_n self = 4 \<and> self_w self = 32"
    | "self_n self = 2 \<and> self_w self = 64" | "self_n self = 4 \<and> self_w self = 64"
    by (auto simp: supported_def)
  then show ?thesis
  proof cases
    case 1
    then show ?thesis using assms(3) False a sup t adv[of a] keep rst
      by (auto simp: advance_def check_def Let_def philox_ok_def setup_generator_eq split: if_splits)
  next
    case 2
    then show ?thesis using assms(3) False a sup t adv[of a] keep rst
      by (auto simp: advance_def check_def Let_def philox_ok_def setup_generator_eq split: if_splits)
  next
    case 3
    then show ?thesis using assms(3) False a sup t adv[of a] keep rst
      by (auto simp: advance_def check_def Let_def philox_ok_def setup_generator_eq split: if_splits)
  next
    case 4
    then show ?thesis using assms(3) False a sup t adv[of a] keep rst
      by (auto simp: advance_def check_def Let_def philox_ok_def setup_generator_eq split: if_splits)
  qed
qed

section \<open>The invariant holds in every reachable state\<close>

lemma pull_ok:
  assumes "prims_ok P" "philox_ok self" "pull P e self = Some (x, self')"
  shows "philox_ok self'"
proof -
  from assms(2) have sup: "supported (self_n self) (self_w self)"
    and ok: "rng_ok (self_n self) (self_w self) (rng_state self)"
    and t: "bitgen self = variant_table (self_n self) (self_w self)"
    by (auto simp: philox_ok_def setup_generator_eq)
  have p: "rng_ok (self_n self) (self_w self) (snd (philox_next64 P (self_n self) (self_w self) (rng_state self)))"
     "rng_ok (self_n self) (self_w self) (snd (philox_next32 P (self_n self) (self_w self) (rng_state self)))"
     "rng_ok (self_n self) (self_w self) (snd (philox_next_double P (self_n self) (self_w self) (rng_state self)))"
    using assms(1) sup ok by (auto simp: prims_ok_def)
  have "rng_ok (self_n self) (self_w self) (rng_state self') \<and> self_n self' = self_n self \<and>
        self_w self' = self_w self \<and> bitgen self' = bitgen self"
    using sup
  proof (cases e)
    case Next_raw
    then show ?thesis using assms(3) sup t p
      by (auto simp: pull_def entry_fn_def variant_table_def supported_def split: if_splits option.splits prod.splits)
  next
    case Next_uint32
    then show ?thesis using assms(3) sup t p
      by (auto simp: pull_def entry_fn_def variant_table_def supported_def split: if_splits option.splits prod.splits)
  next
    case Next_uint64
    then show ?thesis using assms(3) sup t p
      by (auto simp: pull_def entry_fn_def variant_table_def supported_def split: if_splits option.splits prod.splits)
  next
    case Next_double
    then show ?thesis using assms(3) sup t p
      by (auto simp: pull_def entry_fn_def variant_table_def supported_def split: if_splits option.splits prod.splits)
  qed
  then show ?thesis using sup t by (simp add: philox_ok_def setup_generator_eq)
qed

lemma reachable_ok:
  assumes "prims_ok P" "reachable P self"
  shows "philox_ok self"
  using assms(2)
proof (induction rule: reachable.induct)
  case (r_init ent sd counter ky num wid self)
  then show ?case by (rule init_ok)
next
  case (r_seed self ent sd counter ky self')
  then show ?case using seed_ok by blast
next
  case (r_advance self delta c self')
  then show ?case using advance_ok[OF assms(1)] by blast
next
  case (r_jump self iter self')
  then show ?case using advance_ok[OF assms(1)] by (auto simp: jump_def jump_inplace_def Let_def)
next
  case (r_output self e x self')
  then show ?case using pull_ok[OF assms(1)] by blast
qed

lemma ds_seed_ok:
  assumes "dsfmt_prims_ok Q" "length (buffered_uniforms (ds_rng_state self)) = nat DSFMT_N64"
    "ds_seed Q ent self sd = Done self'"
  shows "ds_ok (ds_rng_state self')"
  using assms
  by (auto simp: ds_seed_def ds_ok_def dsfmt_prims_ok_def ds_reset_state_variables_def Let_def
      c_int_def DSFMT_N64_def DSFMT_N_def split: pyobj.splits if_splits)

lemma ds_reachable_ok:
  assumes "dsfmt_prims_ok Q" "ds_reachable Q self"
  shows "ds_ok (ds_rng_state self)"
  using assms(2)
proof (induction rule: ds_reachable.induct)
  case (d_init ent garbage sd self)
  then have "ds_seed Q ent \<lparr>ds_rng_state = \<lparr>dstate = garbage, ds_has_uint32 = 0, ds_uinteger = 0,
                               buffered_uniforms = replicate (nat DSFMT_N64) 0,
                               buffer_loc = DSFMT_N64\<rparr>\<rparr> sd = Done self"
    by (auto simp: DSFMT_init_def split: res.splits)
  then show ?case by (rule ds_seed_ok[OF assms(1), rotated]) simp
next
  case (d_seed self ent sd self')
  then show ?case using ds_seed_ok[OF assms(1)] by (auto simp: ds_ok_def)
next
  case (d_jump self iter self')
  have it: "ds_ok r \<Longrightarrow> ds_ok ((dsfmt_jump Q ^^ k) r)" for r k
    using assms(1) by (induction k) (auto simp: dsfmt_prims_ok_def)
  from d_jump show ?case using it[of "ds_rng_state self"]
    by (auto simp: ds_jump_def ds_jump_inplace_def as_intp_def dsfmt_jump_n_def
        ds_reset_state_variables_def ds_ok_def c_int_def DSFMT_N64_def DSFMT_N_def
        split: if_splits sum.splits)
next
  case (d_output self e x self')
  then show ?case using assms(1)
    by (cases e) (auto simp: ds_pull_def dsfmt_prims_ok_def split: prod.splits)
qed

section \<open>The reference primitives keep the invariant\<close>

lemma write_buffer_props:
  assumes sup: "supported N W" and lb: "length buf = 4" and rb: "in_range W buf"
    and zb: "list_all (\<lambda>x. x = 0) (drop (nat N) buf)"
    and ls: "length src = nat N" and rs: "in_range W src"
  shows "length (write_buffer N W src buf) = 4 \<and> in_range W (write_buffer N W src buf) \<and>
         list_all (\<lambda>x. x = 0) (drop (nat N) (write_buffer N W src buf))"
proof -
  from lb obtain a b c d where buf: "buf = [a, b, c, d]"
    by (auto simp: length_Suc_conv numeral_eq_Suc)
  from sup consider "N = 2" | "N = 4" by (auto simp: supported_def)
  then show ?thesis
  proof cases
    case 1
    with ls obtain x y where src: "src = [x, y]"
      by (auto simp: length_Suc_conv numeral_eq_Suc)
    show ?thesis using rb zb rs 1 sup
      by (auto simp: buf src write_buffer_def in_range_def set_u32_def upt_conv_Cons
          numeral_eq_Suc supported_def)
  next
    case 2
    with ls obtain x y z u where src: "src = [x, y, z, u]"
      by (auto simp: length_Suc_conv numeral_eq_Suc)
    show ?thesis using rb zb rs 2 sup
      by (auto simp: buf src write_buffer_def in_range_def set_u32_def upt_conv_Cons
          numeral_eq_Suc supported_def)
  qed
qed

lemma ref_block_props:
  "length (ref_block N W c k) = nat N" "in_range W (ref_block N W c k)"
  by (simp_all add: ref_block_def in_range_def list_all_iff)

lemma words_of_in_range_int:
  "0 \<le> W \<Longrightarrow> in_range W (words_of v (nat W) len)"
  using words_of_in_range[of "nat W" v len] by simp

lemma ref_next_ok:
  assumes sup: "supported N W" and ok: "rng_ok N W r"
  shows "rng_ok N W (snd (ref_next N W r))"
proof (cases "0 \<le> buffer_pos r \<and> buffer_pos r < N")
  case True
  then show ?thesis using ok sup
    by (auto simp: ref_next_def rng_ok_def c_int_def supported_def)
next
  case False
  have W0: "0 \<le> W" using sup by (auto simp: supported_def)
  have wb: "length (write_buffer N W (ref_block N W (ctr r) (key r)) (buffer r)) = 4 \<and>
     in_range W (write_buffer N W (ref_block N W (ctr r) (key r)) (buffer r)) \<and>
     list_all (\<lambda>x. x = 0) (drop (nat N) (write_buffer N W (ref_block N W (ctr r) (key r)) (buffer r)))"
    using write_buffer_props[OF sup _ _ _ ref_block_props] ok by (simp add: rng_ok_def)
  have "snd (ref_next N W r) =
      r\<lparr>ctr := words_of ((from_words (nat W) (ctr r) + 1) mod 2 ^ nat (N * W)) (nat W) (nat N),
        buffer := write_buffer N W (ref_block N W (ctr r) (key r)) (buffer r),
        buffer_pos := 1\<rparr>"
    using False by (auto simp: ref_next_def Let_def)
  then show ?thesis using ok wb words_of_in_range_int[OF W0]
    by (simp add: rng_ok_def c_int_def)
qed

lemma ref_next64_ok:
  assumes sup: "supported N W" and ok: "rng_ok N W r"
  shows "rng_ok N W (snd (ref_next64 N W r))"
proof (cases "W = 64")
  case True
  then show ?thesis using ref_next_ok[OF sup ok] by (simp add: ref_next64_def)
next
  case False
  have 1: "rng_ok N W (snd (ref_next N W r))" by (rule ref_next_ok[OF sup ok])
  have 2: "rng_ok N W (snd (ref_next N W (snd (ref_next N W r))))" by (rule ref_next_ok[OF sup 1])
  show ?thesis using False 2 by (simp add: ref_next64_def split_beta)
qed

lemma ref_next32_ok:
  assumes sup: "supported N W" and ok: "rng_ok N W r"
  shows "rng_ok N W (snd (ref_next32 N W r))"
proof -
  have 1: "rng_ok N W (snd (ref_next N W r))" by (rule ref_next_ok[OF sup ok])
  have k: "rng_ok N W q \<Longrightarrow> rng_ok N W (q\<lparr>has_uint32 := 1, uinteger := x div 2 ^ 32 mod 2 ^ 32\<rparr>)" for q x
    by (auto simp: rng_ok_def c_int_def)
  have z: "rng_ok N W (r\<lparr>has_uint32 := 0\<rparr>)" using ok by (auto simp: rng_ok_def c_int_def)
  show ?thesis using 1 k z by (auto simp: ref_next32_def split_beta)
qed

lemma ref_next_double_ok:
  assumes sup: "supported N W" and ok: "rng_ok N W r"
  shows "rng_ok N W (snd (ref_next_double N W r))"
  using ref_next64_ok[OF sup ok] by (simp add: ref_next_double_def split_beta)

lemma ref_advance_ok:
  assumes sup: "supported N W" and ok: "rng_ok N W r"
  shows "rng_ok N W (ref_advance N W r step c)"
proof -
  have W0: "0 \<le> W" and N0: "0 < N" using sup by (auto simp: supported_def)
  have wb: "length (write_buffer N W (ref_block N W cp (key r)) (buffer r)) = 4 \<and>
     in_range W (write_buffer N W (ref_block N W cp (key r)) (buffer r)) \<and>
     list_all (\<lambda>x. x = 0) (drop (nat N) (write_buffer N W (ref_block N W cp (key r)) (buffer r)))" for cp
    using write_buffer_props[OF sup _ _ _ ref_block_props] ok by (simp add: rng_ok_def)
  have m: "0 \<le> a mod N" "a mod N < 2 ^ 31" "- (2 ^ 31) \<le> a mod N" for a
    using N0 sup pos_mod_bound[of N a] pos_mod_sign[of N a] by (auto simp: supported_def)
  show ?thesis using ok wb words_of_in_range_int[OF W0] m
    by (simp add: ref_advance_def rng_ok_def c_int_def Let_def)
qed

lemma ref_prims_ok: "prims_ok ref_prims"
  unfolding prims_ok_def
  by (simp add: ref_prims_def ref_next64_ok ref_next32_ok ref_next_double_ok ref_advance_ok)

lemma ref_fill_ok: "dsfmt_t_ok (ref_fill s)"
  by (simp add: ref_fill_def dsfmt_t_ok_def in_range_def list_all_iff c_int_def
      DSFMT_N64_def DSFMT_N_def DSFMT_N_PLUS_1_def)

lemma in_range_map_mod: "0 \<le> W \<Longrightarrow> in_range W (map (\<lambda>x. f x mod 2 ^ nat W) xs)"
  by (simp add: in_range_def list_all_iff)

lemma ref_ds_next_ok:
  assumes "ds_ok r"
  shows "ds_ok (snd (ref_ds_next r))"
proof (cases "0 \<le> buffer_loc r \<and> buffer_loc r < DSFMT_N64")
  case True
  then have "snd (ref_ds_next r) = r\<lparr>buffer_loc := buffer_loc r + 1\<rparr>"
    by (simp add: ref_ds_next_def)
  then show ?thesis using assms True
    by (simp add: ds_ok_def c_int_def DSFMT_N64_def DSFMT_N_def)
next
  case False
  define st where "st = map (\<lambda>x. (x * 5 + 1) mod 2 ^ 64) (status (dstate r))"
  have e: "snd (ref_ds_next r) =
      r\<lparr>dstate := (dstate r)\<lparr>status := st\<rparr>, buffered_uniforms := take (nat DSFMT_N64) st,
        buffer_loc := 1\<rparr>"
    using False by (auto simp: ref_ds_next_def Let_def st_def)
  have l: "length st = nat (2 * DSFMT_N_PLUS_1)"
    using assms by (simp add: st_def ds_ok_def dsfmt_t_ok_def)
  have r: "in_range 64 st"
    unfolding st_def using in_range_map_mod[of 64 "\<lambda>x. x * 5 + 1"] by simp
  have t: "length (take (nat DSFMT_N64) st) = nat DSFMT_N64"
    using l by (simp add: DSFMT_N64_def DSFMT_N_def DSFMT_N_PLUS_1_def)
  show ?thesis using assms l r t
    by (simp add: e ds_ok_def dsfmt_t_ok_def c_int_def)
qed

lemma ref_ds_jump_ok:
  assumes "ds_ok r"
  shows "ds_ok (r\<lparr>dstate := (dstate r)\<lparr>status := map (\<lambda>x. (x * 3 + 7) mod 2 ^ 64) (status (dstate r))\<rparr>\<rparr>)"
  using assms in_range_map_mod[of 64 "\<lambda>x. x * 3 + 7" "status (dstate r)"]
  by (simp add: ds_ok_def dsfmt_t_ok_def)

lemma ref_dsfmt_prims_ok: "dsfmt_prims_ok ref_dsfmt_prims"
  unfolding dsfmt_prims_ok_def
  using ref_ds_jump_ok
  by (simp add: ref_dsfmt_prims_def ref_fill_ok ref_ds_next_ok split_beta)

section \<open>Round trip of the state\<close>

lemma demo_pull: "pull ref_prims Next_uint32 demo_philox = Some (5, demo_drawn)"
  by (simp add: pull_def entry_fn_def demo_philox_def demo_drawn_def ref_prims_def ref_next32_def
      ref_next_def ref_block_def write_buffer_def words_of_def from_words_def upt_conv_Cons Let_def)

lemma demo_drawn_reachable: "reachable ref_prims demo_drawn"
  using r_output[OF r_init[OF demo_philox_constructed] demo_pull] .

lemma demo_dsfmt_constructed:
  "DSFMT_init ref_dsfmt_prims (\<lambda>_. 0) \<lparr>status = [], idx = 0\<rparr> (PyInt 1) = Inr demo_dsfmt"
  by (simp add: DSFMT_init_def ds_seed_def ref_dsfmt_prims_def demo_dsfmt_def
      ds_reset_state_variables_def)

text \<open>
  C1.  For every state reached from a constructor by \<open>seed\<close>, \<open>advance\<close>, \<open>jump\<close> and the
  four output entry points, \<open>set_state(get_state())\<close> on the instance gives back the very
  same state, so any further sequence of draws, through any of the entry points, is
  the one that would have been drawn without the round trip.  This holds for Philox and
  for DSFMT, for all C primitives that keep the state struct well formed.
\<close>

theorem state_round_trip:
  "(prims_ok P \<longrightarrow> reachable P self \<longrightarrow>
      state_setter self (state_getter self) = Done self \<and>
      (\<forall>es. draws P es (res_state (state_setter self (state_getter self))) = draws P es self)) \<and>
   (dsfmt_prims_ok Q \<longrightarrow> ds_reachable Q d \<longrightarrow>
      ds_state_setter d (ds_state_getter d) = Done d \<and>
      (\<forall>es. ds_draws Q es (res_state (ds_state_setter d (ds_state_getter d))) = ds_draws Q es d))"
proof -
  have a: "state_setter self (state_getter self) = Done self \<and>
      (\<forall>es. draws P es (res_state (state_setter self (state_getter self))) = draws P es self)"
    if "prims_ok P" "reachable P self"
  proof -
    from that have "philox_ok self" by (rule reachable_ok)
    then show ?thesis by (simp add: setter_getter)
  qed
  have b: "ds_state_setter d (ds_state_getter d) = Done d \<and>
      (\<forall>es. ds_draws Q es (res_state (ds_state_setter d (ds_state_getter d))) = ds_draws Q es d)"
    if "dsfmt_prims_ok Q" "ds_reachable Q d"
  proof -
    from that have "ds_ok (ds_rng_state d)" by (rule ds_reachable_ok)
    then show ?thesis by (simp add: ds_setter_getter_self)
  qed
  from a b show ?thesis by blast
qed

theorem state_round_trip_witness:
  "prims_ok ref_prims \<and> reachable ref_prims demo_drawn \<and>
   state_setter demo_drawn (state_getter demo_drawn) = Done demo_drawn \<and>
   draws ref_prims [Next_uint32, Next_uint64, Next_double, Next_raw]
      (res_state (state_setter demo_drawn (state_getter demo_drawn))) =
     draws ref_prims [Next_uint32, Next_uint64, Next_double, Next_raw] demo_drawn \<and>
   dsfmt_prims_ok ref_dsfmt_prims \<and> ds_reachable ref_dsfmt_prims demo_dsfmt \<and>
   ds_state_setter demo_dsfmt (ds_state_getter demo_dsfmt) = Done demo_dsfmt \<and>
   ds_draws ref_dsfmt_prims [Next_double, Next_uint32]
      (res_state (ds_state_setter demo_dsfmt (ds_state_getter demo_dsfmt))) =
     ds_draws ref_dsfmt_prims [Next_double, Next_uint32] demo_dsfmt"
proof -
  have r: "ds_reachable ref_dsfmt_prims demo_dsfmt"
    using d_init[OF demo_dsfmt_constructed] .
  show ?thesis
    using state_round_trip[of ref_prims demo_drawn ref_dsfmt_prims demo_dsfmt]
      ref_prims_ok demo_drawn_reachable ref_dsfmt_prims_ok r
    by blast
qed

section \<open>Determinism of seeded construction\<close>

lemma object_to_int_None: "object_to_int v b = Inr None \<Longrightarrow> v = PyNone"
  by (cases v) (auto simp: object_to_int_def split: if_splits)

lemma seed_words_no_entropy:
  "seed1 \<noteq> None \<or> key1 \<noteq> None \<Longrightarrow>
   seed_words P e1 N W seed1 key1 = seed_words P e2 N W seed1 key1"
  by (cases seed1; cases key1) (simp_all add: seed_words_def)

lemma seed_no_entropy:
  assumes "sd \<noteq> PyNone"
  shows "seed P e1 self sd counter ky = seed P e2 self sd counter ky"
proof (cases "object_to_int sd (self_n self * self_w self div 2)")
  case (Inl e)
  then show ?thesis by (simp add: seed_def check_def)
next
  case (Inr seed1)
  have "seed1 \<noteq> None"
  proof
    assume "seed1 = None"
    with Inr have "sd = PyNone" by (auto dest: object_to_int_None)
    with assms show False by simp
  qed
  then have "seed_words P e1 (self_n self) (self_w self) seed1 key1 =
             seed_words P e2 (self_n self) (self_w self) seed1 key1" for key1
    by (simp add: seed_words_no_entropy)
  then show ?thesis using Inr
    by (simp add: seed_def check_def Let_def cong: sum.case_cong if_cong)
qed

text \<open>
  C2.  With a fixed seed \<open>s\<close> (not \<open>None\<close>), the constructor does not read the entropy
  source: two instances constructed independently with the same arguments, whatever
  the entropy available to each, are in the same state (or fail with the same error),
  and \<open>N\<close> outputs drawn from each through \<open>next_uint64\<close> are the same sequence, for
  every \<open>N\<close>.
\<close>

theorem seeded_construction_deterministic:
  assumes "sd \<noteq> PyNone"
  shows "Philox_init P ent1 sd counter ky num wid = Philox_init P ent2 sd counter ky num wid \<and>
         (\<forall>g1 g2 N. Philox_init P ent1 sd counter ky num wid = Inr g1 \<longrightarrow>
                    Philox_init P ent2 sd counter ky num wid = Inr g2 \<longrightarrow>
                    draws P (replicate N Next_uint64) g1 = draws P (replicate N Next_uint64) g2)"
proof -
  have "Philox_init P ent1 sd counter ky num wid = Philox_init P ent2 sd counter ky num wid"
    unfolding Philox_init_def
    by (simp only: seed_no_entropy[OF assms, of P ent1 _ counter ky ent2])
  then show ?thesis by auto
qed


theorem seeded_construction_deterministic_witness:
  "PyInt 1234 \<noteq> PyNone \<and>
   Philox_init ref_prims (\<lambda>_. 0) (PyInt 1234) PyNone PyNone 2 32 = Inr demo_seeded \<and>
   Philox_init ref_prims (\<lambda>i. int i + 17) (PyInt 1234) PyNone PyNone 2 32 = Inr demo_seeded \<and>
   draws ref_prims (replicate 3 Next_uint64) demo_seeded =
     draws ref_prims (replicate 3 Next_uint64) demo_seeded"
proof -
  have n: "PyInt 1234 \<noteq> PyNone" by simp
  have a: "Philox_init ref_prims (\<lambda>_. 0) (PyInt 1234) PyNone PyNone 2 32 = Inr demo_seeded"
    by (simp add: Philox_init_def seed_def new_philox_def check_def object_to_int_def
      seed_words_def int_to_array_def words_of_def view_def copy_cells_def seed_by_array_def
      ref_prims_def from_words_def le_words64.simps
      reset_state_variables_def PHILOX_BUFFER_SIZE_def setup_generator_def demo_seeded_def
      upt_conv_Cons replicate_4)
  show ?thesis
    using seeded_construction_deterministic[OF n, of ref_prims "\<lambda>_. 0" PyNone PyNone 2 32 "\<lambda>i. int i + 17"]
      a by simp
qed

section \<open>Jumping\<close>

lemma default_init_ex: "\<exists>fresh. Philox_init P ent PyNone PyNone PyNone 4 64 = Inr fresh"
proof -
  have j: "\<exists>ys. join32 [a, b, c, d] = Inr ys \<and> length ys = 2" for a b c d
    by simp
  obtain ys where ys: "join32 (random_entropy ent 4) = Inr ys" "length ys = 2"
    using j by (auto simp: random_entropy_def upt_conv_Cons)
  show ?thesis
    using ys
    by (simp add: Philox_init_def seed_def new_philox_def check_def object_to_int_def
        seed_words_def view_def int_to_array_def copy_cells_def Let_def)
qed

lemma as_intp_ok: "- (2 ^ 63) \<le> i \<Longrightarrow> i < 2 ^ 63 \<Longrightarrow> as_intp i = Inr i"
  by (simp add: as_intp_def)

lemma jumped_eq:
  assumes "a < length h" "philox_ok (h ! a)" "- (2 ^ 63) \<le> iter" "iter < 2 ^ 63"
  shows "jumped P ent h a iter =
     (case jump_inplace P (h ! a) iter of
        Done g \<Rightarrow> (Inr (length h), h @ [g])
      | Raised e g \<Rightarrow> (Inl e, h @ [g]))"
proof -
  obtain fresh where f: "Philox_init P ent PyNone PyNone PyNone 4 64 = Inr fresh"
    using default_init_ex by blast
  have n: "(h @ [fresh]) ! a = h ! a" "(h @ [fresh]) ! length h = fresh"
    using assms(1) by (simp_all add: nth_append)
  show ?thesis
    using as_intp_ok[OF assms(3,4)] f n setter_getter[OF assms(2), of fresh]
    by (simp add: jumped_def Let_def split: res.splits)
qed



lemma jumped_Inr:
  assumes "a < length h" "jumped P ent h a iter = (Inr b, h')"
  shows "b = length h \<and> length h' = Suc (length h) \<and>
     (\<exists>fresh copy. Philox_init P ent PyNone PyNone PyNone 4 64 = Inr fresh \<and>
        state_setter fresh (state_getter (h ! a)) = Done copy \<and>
        jump_inplace P copy iter = Done (h' ! b))"
proof -
  from assms(2) obtain it fresh copy g where
    1: "as_intp iter = Inr it" and 2: "Philox_init P ent PyNone PyNone PyNone 4 64 = Inr fresh"
    and 3: "state_setter ((h @ [fresh]) ! length h) (state_getter ((h @ [fresh]) ! a)) = Done copy"
    and 4: "jump_inplace P copy it = Done g" and 5: "b = length h" "h' = (h @ [fresh])[length h := g]"
    by (auto simp: jumped_def Let_def split: sum.splits res.splits)
  have it: "it = iter" using 1 by (auto simp: as_intp_def split: if_splits)
  have n: "(h @ [fresh]) ! a = h ! a" "(h @ [fresh]) ! length h = fresh"
    using assms(1) by (simp_all add: nth_append)
  have g: "h' ! b = g" using 5 by simp
  show ?thesis using 2 3 4 5 it n g by auto
qed

lemma ds_default_init: "\<exists>fresh. DSFMT_init Q ent garbage PyNone = Inr fresh \<and>
    length (buffered_uniforms (ds_rng_state fresh)) = nat DSFMT_N64"
  by (simp add: DSFMT_init_def ds_seed_def ds_reset_state_variables_def)

lemma ds_jumped_eq:
  assumes "a < length h" "ds_ok (ds_rng_state (h ! a))" "- (2 ^ 63) \<le> iter" "iter < 2 ^ 63"
  shows "\<exists>fresh. DSFMT_init Q ent garbage PyNone = Inr fresh \<and>
     ds_jumped Q ent garbage h a iter =
     (case ds_jump_inplace Q (ds_copy fresh (h ! a)) iter of
        Done g \<Rightarrow> (Inr (length h), h @ [g])
      | Raised e g \<Rightarrow> (Inl e, h @ [g]))"
proof -
  obtain fresh where f: "DSFMT_init Q ent garbage PyNone = Inr fresh"
    and fl: "length (buffered_uniforms (ds_rng_state fresh)) = nat DSFMT_N64"
    using ds_default_init by blast
  have n: "(h @ [fresh]) ! a = h ! a" "(h @ [fresh]) ! length h = fresh"
    using assms(1) by (simp_all add: nth_append)
  have "ds_jumped Q ent garbage h a iter =
     (case ds_jump_inplace Q (ds_copy fresh (h ! a)) iter of
        Done g \<Rightarrow> (Inr (length h), h @ [g])
      | Raised e g \<Rightarrow> (Inl e, h @ [g]))"
    using as_intp_ok[OF assms(3,4)] f n ds_setter_getter[OF assms(2) fl]
    by (simp add: ds_jumped_def Let_def ds_copy_def split: res.splits)
  with f show ?thesis by blast
qed

lemma ds_jumped_frame:
  assumes "a < length h"
  shows "take (length h) (snd (ds_jumped Q ent garbage h a iter)) = h"
  by (simp add: ds_jumped_def Let_def split: sum.splits res.splits)

lemma ds_jumped_Inr:
  assumes "a < length h" "ds_jumped Q ent garbage h a iter = (Inr b, h')"
  shows "b = length h \<and> length h' = Suc (length h) \<and>
     (\<exists>fresh copy. DSFMT_init Q ent garbage PyNone = Inr fresh \<and>
        ds_state_setter fresh (ds_state_getter (h ! a)) = Done copy \<and>
        ds_jump_inplace Q copy iter = Done (h' ! b))"
proof -
  from assms(2) obtain it fresh copy g where
    1: "as_intp iter = Inr it" and 2: "DSFMT_init Q ent garbage PyNone = Inr fresh"
    and 3: "ds_state_setter ((h @ [fresh]) ! length h) (ds_state_getter ((h @ [fresh]) ! a)) = Done copy"
    and 4: "ds_jump_inplace Q copy it = Done g" and 5: "b = length h" "h' = (h @ [fresh])[length h := g]"
    by (auto simp: ds_jumped_def Let_def split: sum.splits res.splits)
  have it: "it = iter" using 1 by (auto simp: as_intp_def split: if_splits)
  have n: "(h @ [fresh]) ! a = h ! a" "(h @ [fresh]) ! length h = fresh"
    using assms(1) by (simp_all add: nth_append)
  have g: "h' ! b = g" using 5 by simp
  show ?thesis using 2 3 4 5 it n g by auto
qed


lemma demo_philox_ok: "philox_ok demo_philox"
  using demo_philox_constructed by (rule init_ok)


lemma advance_total:
  assumes "supported (self_n self) (self_w self)"
  shows "\<exists>g. advance P self delta counter = Done g"
proof (cases "delta = 0")
  case True
  then show ?thesis by (simp add: advance_def)
next
  case False
  define cnt where "cnt = (case counter of None \<Rightarrow> True | Some c \<Rightarrow> c)"
  define d1 where "d1 = (if cnt then delta * self_n self else delta)"
  obtain a where a: "int_to_array (wrap_int d1 (self_n self * self_w self + self_n self div 2))
       (Some ((self_n self + 1) * self_w self)) (self_w self) = Inr a"
    using step_array_ok[OF assms] by blast
  show ?thesis
    using False a
    by (simp add: advance_def check_def Let_def cnt_def d1_def)
qed

lemma jump_inplace_total:
  assumes "supported (self_n self) (self_w self)"
  shows "\<exists>g. jump_inplace P self iter = Done g"
  using advance_total[OF assms] by (simp add: jump_inplace_def Let_def)

lemma jumped_total:
  assumes "a < length h" "philox_ok (h ! a)" "- (2 ^ 63) \<le> iter" "iter < 2 ^ 63"
  shows "\<exists>h'. jumped P ent h a iter = (Inr (length h), h')"
proof -
  have "supported (self_n (h ! a)) (self_w (h ! a))" using assms(2) by (simp add: philox_ok_def)
  from jump_inplace_total[OF this, of P iter] obtain g where "jump_inplace P (h ! a) iter = Done g"
    by blast
  then show ?thesis using jumped_eq[OF assms, of P ent] by simp
qed


section \<open>Validation failures\<close>

text \<open>
  Where validation comes before every write, a validation error leaves the instance as
  it was: \<open>seed_Raised_unchanged\<close> for \<open>Philox.seed\<close> on a supported variant, and the two
  lemmas below for \<open>DSFMT.seed\<close> and for a \<open>ValueError\<close> of the DSFMT state setter.
\<close>

lemma ds_seed_Raised_unchanged:
  "ds_seed Q ent self sd = Raised e self' \<Longrightarrow> self' = self"
  by (auto simp: ds_seed_def Let_def split: pyobj.splits if_splits)

lemma getitem_error: "getitem obj k = Inl e \<Longrightarrow> e = KeyError \<or> e = TypeError"
  by (auto simp: getitem_def split: pyobj.splits option.splits)

lemma as_int_error: "as_int obj = Inl e \<Longrightarrow> e = OverflowError \<or> e = TypeError"
  by (auto simp: as_int_def split: pyobj.splits if_splits)

lemma item_double_error: "item_double obj i = Inl e \<Longrightarrow> e \<noteq> ValueError"
  by (auto simp: item_double_def double_of_int_def Let_def split: pyobj.splits if_splits)

lemma store_doubles_error: "store_doubles src is dst = (Inl e, out) \<Longrightarrow> e \<noteq> ValueError"
  by (induction src "is" dst rule: store_doubles.induct)
     (auto split: sum.splits dest: item_double_error)

lemma ds_setter_ValueError_unchanged:
  assumes "ds_state_setter self v = Raised ValueError self'"
  shows "self' = self"
  using assms
  by (auto simp: ds_state_setter_def check_def Let_def
      split: pyobj.splits if_splits sum.splits prod.splits
      dest: getitem_error as_int_error store_doubles_error)

section \<open>The function table and unknown variants\<close>

lemma setup_generator_unsupported:
  "\<not> supported (self_n x) (self_w x) \<Longrightarrow> setup_generator x = x"
  by (auto simp: setup_generator_def supported_def)

lemma setter_table_unknown_variant:
  assumes "dict_get d ''bit_generator'' (PyStr '''') = PyStr ''Philox''"
    and "dict_get d ''number'' (PyInt 4) = PyInt num"
    and "dict_get d ''width'' (PyInt 64) = PyInt wid"
    and "\<not> supported num wid"
  shows "bitgen (res_state (state_setter self (PyDict d))) = bitgen self"
proof (cases "as_int (PyInt num)")
  case (Inl e)
  then show ?thesis by (simp add: state_setter_def assms(1,2) check_def)
next
  case n: (Inr n)
  then have nn: "n = num" by (auto simp: as_int_def split: if_splits)
  show ?thesis
  proof (cases "as_int (PyInt wid)")
    case (Inl e)
    then show ?thesis using n by (simp add: state_setter_def assms(1,2,3) check_def)
  next
    case w: (Inr w)
    then have ww: "w = wid" by (auto simp: as_int_def split: if_splits)
    show ?thesis
      using n w nn ww assms(4)
      by (simp add: state_setter_def assms(1,2,3) check_def Let_def setup_generator_unsupported
          split: sum.splits)
  qed
qed

section \<open>The leftover half of DSFMT stays zero\<close>

lemma ds_seed_half:
  "leftover_half (ds_rng_state (res_state (ds_seed Q ent ds sd))) = leftover_half (ds_rng_state ds)"
  by (simp add: ds_seed_def ds_reset_state_variables_def leftover_half_def Let_def
      split: pyobj.splits)

lemma ds_init_half:
  "DSFMT_init Q ent garbage sd = Inr self \<Longrightarrow> leftover_half (ds_rng_state self) = (0, 0)"
  using ds_seed_half[of Q ent "\<lparr>ds_rng_state = \<lparr>dstate = garbage, ds_has_uint32 = 0, ds_uinteger = 0,
                               buffered_uniforms = replicate (nat DSFMT_N64) 0,
                               buffer_loc = DSFMT_N64\<rparr>\<rparr>" sd]
  by (auto simp: DSFMT_init_def leftover_half_def split: res.splits)

lemma funpow_half:
  "dsfmt_half_unused Q \<Longrightarrow> leftover_half ((dsfmt_jump Q ^^ n) r) = leftover_half r"
  by (induction n) (simp_all add: dsfmt_half_unused_def)

lemma ds_jump_inplace_half:
  "dsfmt_half_unused Q \<Longrightarrow>
   leftover_half (ds_rng_state (res_state (ds_jump_inplace Q ds iter))) = leftover_half (ds_rng_state ds)"
  using funpow_half[of Q "nat iter" "ds_rng_state ds"]
  by (simp add: ds_jump_inplace_def dsfmt_jump_n_def ds_reset_state_variables_def leftover_half_def)

lemma ds_jump_half:
  "dsfmt_half_unused Q \<Longrightarrow>
   leftover_half (ds_rng_state (res_state (ds_jump Q ds iter))) = leftover_half (ds_rng_state ds)"
  using ds_jump_inplace_half[of Q ds]
  by (simp add: ds_jump_def split: sum.splits)

lemma ds_setter_half:
  "leftover_half (ds_rng_state (res_state (ds_state_setter ds v))) = leftover_half (ds_rng_state ds)"
  by (simp add: ds_state_setter_def check_def Let_def leftover_half_def split_beta
      split: pyobj.splits sum.splits)

lemma ds_pull_half:
  "dsfmt_half_unused Q \<Longrightarrow>
   leftover_half (ds_rng_state (snd (ds_pull Q e ds))) = leftover_half (ds_rng_state ds)"
  by (cases e) (simp_all add: ds_pull_def dsfmt_half_unused_def split_beta)

lemma ds_made_half:
  assumes "dsfmt_half_unused Q" and "ds_made Q self"
  shows "leftover_half (ds_rng_state self) = (0, 0)"
  using assms(2)
proof (induction rule: ds_made.induct)
  case (m_init ent garbage sd self)
  then show ?case by (rule ds_init_half)
next
  case (m_seed self ent sd)
  then show ?case by (simp add: ds_seed_half)
next
  case (m_jump self iter)
  then show ?case by (simp add: ds_jump_half[OF assms(1)])
next
  case (m_jump_inplace self iter)
  then show ?case by (simp add: ds_jump_inplace_half[OF assms(1)])
next
  case (m_set self v)
  then show ?case by (simp add: ds_setter_half)
next
  case (m_output self e)
  then show ?case by (simp add: ds_pull_half[OF assms(1)])
qed

lemma ref_dsfmt_half_unused: "dsfmt_half_unused ref_dsfmt_prims"
  by (simp add: dsfmt_half_unused_def ref_dsfmt_prims_def ref_ds_next_def leftover_half_def
      Let_def split_beta)

lemma demo_dsfmt_made: "ds_made ref_dsfmt_prims demo_dsfmt"
  using demo_dsfmt_constructed by (rule m_init)

section \<open>Seeding, setting and the buffer fields\<close>

lemma ds_seed_Done_half:
  assumes "ds_seed Q ent ds dsd = Done ds'"
  shows "ds_has_uint32 (ds_rng_state ds') = ds_has_uint32 (ds_rng_state ds) \<and>
         ds_uinteger (ds_rng_state ds') = ds_uinteger (ds_rng_state ds)"
  using ds_seed_half[of Q ent ds dsd] assms by (simp add: leftover_half_def)

lemma ds_seed_made_zero:
  assumes "dsfmt_half_unused Q" and "ds_made Q ds" and "ds_seed Q ent ds dsd = Done ds'"
  shows "ds_has_uint32 (ds_rng_state ds') = 0 \<and> ds_uinteger (ds_rng_state ds') = 0"
  using ds_made_half[OF assms(1,2)] ds_seed_Done_half[OF assms(3)] by (simp add: leftover_half_def)

lemma demo_dsfmt_drawn_ok: "ds_ok (ds_rng_state demo_dsfmt_drawn)"
  using ref_ds_next_ok[OF demo_dsfmt_ok]
  by (simp add: demo_dsfmt_drawn_def ds_pull_def ref_dsfmt_prims_def split_beta)

lemma demo_dsfmt_drawn_loc: "buffer_loc (ds_rng_state demo_dsfmt_drawn) = 1"
  by (simp add: demo_dsfmt_drawn_def ds_pull_def ref_dsfmt_prims_def split_beta ref_ds_next_def
      demo_dsfmt_def Let_def)

lemma demo_dsfmt_restore:
  "ds_state_setter demo_dsfmt (ds_state_getter demo_dsfmt_drawn) =
     Done (ds_copy demo_dsfmt demo_dsfmt_drawn)"
proof -
  have "length (buffered_uniforms (ds_rng_state demo_dsfmt)) = nat DSFMT_N64"
    using demo_dsfmt_ok by (simp add: ds_ok_def)
  from ds_setter_getter[OF demo_dsfmt_drawn_ok this] show ?thesis by (simp add: ds_copy_def)
qed

text \<open>
  C4, as amended.  After every successful call to \<open>seed\<close> the buffering fields are in
  their empty configuration.  For Philox: \<open>has_uint32 = 0\<close>, \<open>uinteger = 0\<close>,
  \<open>buffer_pos = PHILOX_BUFFER_SIZE\<close> and a zeroed buffer.  For DSFMT:
  \<open>buffer_loc = DSFMT_N64\<close>, and \<open>seed\<close> leaves \<open>has_uint32\<close> and \<open>uinteger\<close> as they were,
  which is 0 on every instance the operations of the class produce, the C functions
  leaving the two fields alone.  After a successful call to the state setter the fields
  hold what the dictionary supplies: \<open>has_uint32\<close>, \<open>uinteger\<close> and \<open>buffer_pos\<close>
  (\<open>buffer_loc\<close> for DSFMT) are the dictionary's values.
\<close>

theorem seed_resets_setter_restores:
  "(seed P ent self sd counter ky = Done self' \<longrightarrow>
      has_uint32 (rng_state self') = 0 \<and> uinteger (rng_state self') = 0 \<and>
      buffer_pos (rng_state self') = PHILOX_BUFFER_SIZE \<and>
      buffer (rng_state self') = replicate 4 0) \<and>
   (ds_seed Q ent ds dsd = Done ds' \<longrightarrow>
      buffer_loc (ds_rng_state ds') = DSFMT_N64 \<and>
      ds_has_uint32 (ds_rng_state ds') = ds_has_uint32 (ds_rng_state ds) \<and>
      ds_uinteger (ds_rng_state ds') = ds_uinteger (ds_rng_state ds) \<and>
      (dsfmt_half_unused Q \<longrightarrow> ds_made Q ds \<longrightarrow>
         ds_has_uint32 (ds_rng_state ds') = 0 \<and> ds_uinteger (ds_rng_state ds') = 0)) \<and>
   (state_setter obj v = Done obj' \<longrightarrow>
      getitem v ''has_uint32'' = Inr (PyInt (has_uint32 (rng_state obj'))) \<and>
      getitem v ''uinteger'' = Inr (PyInt (uinteger (rng_state obj'))) \<and>
      getitem v ''buffer_pos'' = Inr (PyInt (buffer_pos (rng_state obj')))) \<and>
   (ds_state_setter dobj dv = Done dobj' \<longrightarrow>
      getitem dv ''buffer_loc'' = Inr (PyInt (buffer_loc (ds_rng_state dobj'))))"
  using seed_Done_buffer[of P ent self sd counter ky self'] ds_seed_Done_buffer[of Q ent ds dsd ds']
    ds_seed_Done_half[of Q ent ds dsd ds'] ds_seed_made_zero[of Q ds ent dsd ds']
    setter_Done_scalars[of obj v obj'] ds_setter_Done_loc[of dobj dv dobj']
  by blast

theorem seed_resets_setter_restores_witness:
  "seed ref_prims (\<lambda>_. 0) demo_restored PyNone PyNone (PyInt 5) = Done demo_philox \<and>
   has_uint32 (rng_state demo_philox) = 0 \<and> uinteger (rng_state demo_philox) = 0 \<and>
   buffer_pos (rng_state demo_philox) = PHILOX_BUFFER_SIZE \<and>
   buffer (rng_state demo_philox) = replicate 4 0 \<and>
   ds_seed ref_dsfmt_prims (\<lambda>_. 0) demo_dsfmt_drawn (PyInt 1) =
     Done (demo_dsfmt_drawn\<lparr>ds_rng_state :=
             (ds_rng_state demo_dsfmt_drawn)\<lparr>dstate := ref_fill 1, buffer_loc := DSFMT_N64\<rparr>\<rparr>) \<and>
   buffer_loc (ds_rng_state demo_dsfmt_drawn) = 1 \<and>
   dsfmt_half_unused ref_dsfmt_prims \<and> ds_made ref_dsfmt_prims demo_dsfmt_drawn \<and>
   ds_has_uint32 (ds_rng_state demo_dsfmt_drawn) = 0 \<and>
   ds_uinteger (ds_rng_state demo_dsfmt_drawn) = 0 \<and>
   state_setter demo_philox demo_snapshot = Done demo_restored \<and>
   getitem demo_snapshot ''has_uint32'' = Inr (PyInt (has_uint32 (rng_state demo_restored))) \<and>
   getitem demo_snapshot ''uinteger'' = Inr (PyInt (uinteger (rng_state demo_restored))) \<and>
   getitem demo_snapshot ''buffer_pos'' = Inr (PyInt (buffer_pos (rng_state demo_restored))) \<and>
   ds_state_setter demo_dsfmt (ds_state_getter demo_dsfmt_drawn) =
     Done (ds_copy demo_dsfmt demo_dsfmt_drawn) \<and>
   getitem (ds_state_getter demo_dsfmt_drawn) ''buffer_loc'' =
     Inr (PyInt (buffer_loc (ds_rng_state (ds_copy demo_dsfmt demo_dsfmt_drawn))))"
proof -
  have ds: "ds_seed ref_dsfmt_prims (\<lambda>_. 0) demo_dsfmt_drawn (PyInt 1) =
     Done (demo_dsfmt_drawn\<lparr>ds_rng_state :=
             (ds_rng_state demo_dsfmt_drawn)\<lparr>dstate := ref_fill 1, buffer_loc := DSFMT_N64\<rparr>\<rparr>)"
    by (simp add: ds_seed_def ref_dsfmt_prims_def ds_reset_state_variables_def)
  have md: "ds_made ref_dsfmt_prims demo_dsfmt_drawn"
    unfolding demo_dsfmt_drawn_def using demo_dsfmt_made by (rule m_output)
  note t = seed_resets_setter_restores[where P = ref_prims and ent = "\<lambda>_. 0"
      and self = demo_restored and sd = PyNone and counter = PyNone and ky = "PyInt 5"
      and self' = demo_philox and Q = ref_dsfmt_prims and ds = demo_dsfmt_drawn and dsd = "PyInt 1"
      and ds' = "demo_dsfmt_drawn\<lparr>ds_rng_state :=
             (ds_rng_state demo_dsfmt_drawn)\<lparr>dstate := ref_fill 1, buffer_loc := DSFMT_N64\<rparr>\<rparr>"
      and obj = demo_philox and v = demo_snapshot and obj' = demo_restored
      and dobj = demo_dsfmt and dv = "ds_state_getter demo_dsfmt_drawn"
      and dobj' = "ds_copy demo_dsfmt demo_dsfmt_drawn"]
  show ?thesis
    using t demo_reseed ds md ref_dsfmt_half_unused demo_restored_set demo_dsfmt_restore
      demo_dsfmt_drawn_loc
    by simp
qed

text \<open>
  C4 as stated fails for the state setter.  For Philox, restoring \<open>demo_snapshot\<close>
  succeeds and leaves a cached half (\<open>has_uint32 = 1\<close>, \<open>uinteger = 7\<close>) and a buffer with
  three words still to serve (\<open>buffer_pos = 1\<close>).  For DSFMT, restoring the snapshot taken
  after one draw leaves \<open>buffer_loc = 1\<close>, with the rest of the buffer still to serve.
\<close>

theorem setter_restores_cached_half:
  "state_setter demo_philox demo_snapshot = Done demo_restored \<and>
   has_uint32 (rng_state demo_restored) = 1 \<and> uinteger (rng_state demo_restored) = 7 \<and>
   buffer_pos (rng_state demo_restored) = 1 \<and> buffer (rng_state demo_restored) = [11, 12, 13, 14] \<and>
   buffer_pos (rng_state demo_restored) \<noteq> PHILOX_BUFFER_SIZE \<and>
   ds_state_setter demo_dsfmt (ds_state_getter demo_dsfmt_drawn) =
     Done (ds_copy demo_dsfmt demo_dsfmt_drawn) \<and>
   buffer_loc (ds_rng_state (ds_copy demo_dsfmt demo_dsfmt_drawn)) = 1 \<and>
   buffer_loc (ds_rng_state (ds_copy demo_dsfmt demo_dsfmt_drawn)) \<noteq> DSFMT_N64"
  by (simp add: demo_restored_set demo_dsfmt_restore)
     (simp add: demo_restored_def PHILOX_BUFFER_SIZE_def ds_copy_def demo_dsfmt_drawn_loc
        DSFMT_N64_def DSFMT_N_def)

section \<open>Jumps: the stride, the copy and the range of \<open>iter\<close>\<close>



lemma jump_is_advance:
  "jump_inplace P s iter = advance P s (iter * 2 ^ nat (self_n s * self_w s div 2)) (Some True)"
  "jump P s iter = advance P s (iter * 2 ^ nat (self_n s * self_w s div 2)) (Some True)"
  by (simp_all add: jump_def jump_inplace_def Let_def mult.commute)

lemma jumped_overflow:
  "2 ^ 63 \<le> iter \<or> iter < - (2 ^ 63) \<Longrightarrow> jumped P ent h a iter = (Inl OverflowError, h)"
  by (auto simp: jumped_def as_intp_def)

lemma ds_jumped_overflow:
  "2 ^ 63 \<le> iter \<or> iter < - (2 ^ 63) \<Longrightarrow> ds_jumped Q ent garbage h a iter = (Inl OverflowError, h)"
  by (auto simp: ds_jumped_def as_intp_def)

lemma ds_jump_overflow:
  "2 ^ 63 \<le> iter \<or> iter < - (2 ^ 63) \<Longrightarrow> ds_jump Q d iter = Raised OverflowError d"
  by (auto simp: ds_jump_def as_intp_def)

















text \<open>
  C9, as amended.  For every negative \<open>iter\<close>, DSFMT's \<open>jump_inplace\<close> raises a
  \<open>ValueError\<close> and leaves the instance as it is.  So do DSFMT's \<open>jump\<close> and \<open>jumped\<close> for
  \<open>- 2^63 \<le> iter < 0\<close> (\<open>jumped\<close> leaves every existing instance as it is); for
  \<open>iter < - 2^63\<close>, outside their \<open>npy_intp\<close> parameter, they raise \<open>OverflowError\<close>
  instead.  Philox has no check of the sign: on a supported variant \<open>jump_inplace\<close> and
  \<open>jump\<close> hand \<open>iter * 2^(N*W/2)\<close> to \<open>advance\<close>, which wraps a negative delta, and return
  normally; \<open>jumped\<close> returns a new instance for \<open>- 2^63 \<le> iter < 0\<close> and raises
  \<open>OverflowError\<close> for \<open>iter < - 2^63\<close>.
\<close>

theorem negative_iter:
  "(iter < 0 \<longrightarrow>
     ds_jump_inplace Q d iter = Raised ValueError d \<and>
     (supported (self_n self) (self_w self) \<longrightarrow>
        jump P self iter =
          advance P self (iter * 2 ^ nat (self_n self * self_w self div 2)) (Some True) \<and>
        (\<exists>g. jump_inplace P self iter = Done g) \<and> (\<exists>g. jump P self iter = Done g)) \<and>
     (- (2 ^ 63) \<le> iter \<longrightarrow>
        ds_jump Q d iter = Raised ValueError d \<and>
        (b < length dh \<longrightarrow> ds_ok (ds_rng_state (dh ! b)) \<longrightarrow>
           fst (ds_jumped Q ent garbage dh b iter) = Inl ValueError \<and>
           take (length dh) (snd (ds_jumped Q ent garbage dh b iter)) = dh) \<and>
        (a < length h \<longrightarrow> philox_ok (h ! a) \<longrightarrow>
           (\<exists>h'. jumped P ent h a iter = (Inr (length h), h'))))) \<and>
   (low < - (2 ^ 63) \<longrightarrow>
      ds_jump Q d low = Raised OverflowError d \<and>
      ds_jumped Q ent garbage dh b low = (Inl OverflowError, dh) \<and>
      jumped P ent h a low = (Inl OverflowError, h))"
proof -
  have 1: "ds_jump_inplace Q x iter = Raised ValueError x" if "iter < 0" for x
    using that by (simp add: ds_jump_inplace_def)
  have 2: "ds_jump Q d iter = Raised ValueError d" if "iter < 0" "- (2 ^ 63) \<le> iter"
    using that 1 by (simp add: ds_jump_def as_intp_def)
  have 3: "fst (ds_jumped Q ent garbage dh b iter) = Inl ValueError \<and>
        take (length dh) (snd (ds_jumped Q ent garbage dh b iter)) = dh"
    if "iter < 0" "- (2 ^ 63) \<le> iter" "b < length dh" "ds_ok (ds_rng_state (dh ! b))"
  proof -
    have hi: "iter < 2 ^ 63" using that(1) by auto
    from ds_jumped_eq[OF that(3,4,2) hi, of Q ent garbage] show ?thesis
      using 1[OF that(1)] ds_jumped_frame[OF that(3), of Q ent garbage iter] by auto
  qed
  have 5: "(\<exists>g. jump_inplace P self iter = Done g) \<and> (\<exists>g. jump P self iter = Done g)"
    if "supported (self_n self) (self_w self)"
    using jump_inplace_total[OF that, of P iter] by (simp add: jump_def)
  have 6: "\<exists>h'. jumped P ent h a iter = (Inr (length h), h')"
    if "iter < 0" "- (2 ^ 63) \<le> iter" "a < length h" "philox_ok (h ! a)"
  proof -
    have hi: "iter < 2 ^ 63" using that(1) by auto
    from jumped_total[OF that(3,4,2) hi] show ?thesis .
  qed
  have 7: "ds_jump Q d low = Raised OverflowError d \<and>
      ds_jumped Q ent garbage dh b low = (Inl OverflowError, dh) \<and>
      jumped P ent h a low = (Inl OverflowError, h)" if "low < - (2 ^ 63)"
    using that ds_jump_overflow[of low Q d] ds_jumped_overflow[of low Q ent garbage dh b]
      jumped_overflow[of low P ent h a] by simp
  show ?thesis using 1[of d] 2 3 jump_is_advance(2)[of P self iter] 5 6 7 by blast
qed

theorem negative_iter_witness:
  "(- 1 :: int) < 0 \<and>
   ds_jump_inplace ref_dsfmt_prims demo_dsfmt (- 1) = Raised ValueError demo_dsfmt \<and>
   - (2 ^ 63) \<le> (- 1 :: int) \<and>
   ds_jump ref_dsfmt_prims demo_dsfmt (- 1) = Raised ValueError demo_dsfmt \<and>
   0 < length [demo_dsfmt] \<and> ds_ok (ds_rng_state ([demo_dsfmt] ! 0)) \<and>
   fst (ds_jumped ref_dsfmt_prims (\<lambda>_. 0) \<lparr>status = [], idx = 0\<rparr> [demo_dsfmt] 0 (- 1)) =
     Inl ValueError \<and>
   take (length [demo_dsfmt])
     (snd (ds_jumped ref_dsfmt_prims (\<lambda>_. 0) \<lparr>status = [], idx = 0\<rparr> [demo_dsfmt] 0 (- 1))) =
     [demo_dsfmt] \<and>
   supported (self_n demo_philox) (self_w demo_philox) \<and>
   (\<exists>g. jump_inplace ref_prims demo_philox (- 1) = Done g) \<and>
   (\<exists>g. jump ref_prims demo_philox (- 1) = Done g) \<and>
   0 < length [demo_philox] \<and> philox_ok ([demo_philox] ! 0) \<and>
   (\<exists>h'. jumped ref_prims (\<lambda>_. 0) [demo_philox] 0 (- 1) = (Inr (length [demo_philox]), h')) \<and>
   (- (2 ^ 63) - 1 :: int) < - (2 ^ 63) \<and>
   ds_jump ref_dsfmt_prims demo_dsfmt (- (2 ^ 63) - 1) = Raised OverflowError demo_dsfmt \<and>
   ds_jumped ref_dsfmt_prims (\<lambda>_. 0) \<lparr>status = [], idx = 0\<rparr> [demo_dsfmt] 0 (- (2 ^ 63) - 1) =
     (Inl OverflowError, [demo_dsfmt]) \<and>
   jumped ref_prims (\<lambda>_. 0) [demo_philox] 0 (- (2 ^ 63) - 1) = (Inl OverflowError, [demo_philox])"
proof -
  note t = negative_iter[where iter = "- 1" and Q = ref_dsfmt_prims and d = demo_dsfmt
      and b = 0 and dh = "[demo_dsfmt]" and ent = "\<lambda>_. 0" and garbage = "\<lparr>status = [], idx = 0\<rparr>"
      and self = demo_philox and P = ref_prims and a = 0 and h = "[demo_philox]"
      and low = "- (2 ^ 63) - 1"]
  have l: "0 < length [demo_philox]" "0 < length [demo_dsfmt]" by simp_all
  have o: "philox_ok ([demo_philox] ! 0)" "ds_ok (ds_rng_state ([demo_dsfmt] ! 0))"
    using demo_philox_ok demo_dsfmt_ok by simp_all
  have s: "supported (self_n demo_philox) (self_w demo_philox)"
    using demo_philox_ok by (simp add: philox_ok_def)
  have i: "(- 1 :: int) < 0" "- (2 ^ 63) \<le> (- 1 :: int)" "(- (2 ^ 63) - 1 :: int) < - (2 ^ 63)"
    by simp_all
  from t l o s i show ?thesis by blast
qed

text \<open>
  C9 as stated fails twice.  For Philox, \<open>jump(-1)\<close> on \<open>Philox(key=5)\<close> raises nothing
  and returns the instance with its counter moved back by \<open>2^128\<close>.  For DSFMT,
  \<open>jump(- 2^63 - 1)\<close> raises \<open>OverflowError\<close>, not \<open>ValueError\<close>: the conversion of the
  argument fails before the sign is looked at.
\<close>

theorem philox_jump_accepts_negative_iter:
  "jump ref_prims demo_philox (- 1) = Done demo_jumped_back \<and>
   ds_jump ref_dsfmt_prims demo_dsfmt (- (2 ^ 63) - 1) = Raised OverflowError demo_dsfmt"
proof -
  have "jump ref_prims demo_philox (- 1) = Done demo_jumped_back"
    by (simp add: jump_def jump_inplace_def advance_def check_def demo_philox_def
        demo_jumped_back_def int_to_array_def
        wrap_int_def reset_state_variables_def PHILOX_BUFFER_SIZE_def ref_prims_def
        ref_advance_def words_of_def from_words_def upt_conv_Cons replicate_4)
  then show ?thesis by (simp add: ds_jump_overflow)
qed

section \<open>The state setter and the variant\<close>

text \<open>
  C8 (the code departs from the claim).  \<open>demo_philox\<close> is a 4x64 instance, and
  \<open>resized_snapshot\<close> is its own snapshot with \<open>number\<close> and \<open>width\<close> changed to 2 and 32,
  so that the arrays have the wrong length for the variant it names.  The Philox state
  setter raises the \<open>ValueError\<close> of \<open>check_state_array\<close>, but it has already assigned
  \<open>number\<close>, \<open>width\<close>, \<open>n\<close>, \<open>w\<close> and the function table: the instance that was 4x64
  before the call is left as a 2x32 generator.
\<close>

theorem setter_switches_variant_before_validating:
  "res_error (state_setter demo_philox resized_snapshot) = Some ValueError \<and>
   self_n (res_state (state_setter demo_philox resized_snapshot)) = 2 \<and>
   self_w (res_state (state_setter demo_philox resized_snapshot)) = 32 \<and>
   number (rng_state (res_state (state_setter demo_philox resized_snapshot))) = 2 \<and>
   width (rng_state (res_state (state_setter demo_philox resized_snapshot))) = 32 \<and>
   bitgen (res_state (state_setter demo_philox resized_snapshot)) = variant_table 2 32 \<and>
   self_n demo_philox = 4 \<and> self_w demo_philox = 64 \<and>
   number (rng_state demo_philox) = 4 \<and> width (rng_state demo_philox) = 64 \<and>
   bitgen demo_philox = variant_table 4 64 \<and> variant_table 2 32 \<noteq> variant_table 4 64"
  by (simp add: state_setter_def demo_philox_def resized_snapshot_def check_def
      dict_get_def getitem_def as_int_def check_state_array_def setup_generator_def
      variant_table_def)

text \<open>
  C10 (the code departs from the claim).  \<open>odd_snapshot\<close> has the \<open>Philox\<close> tag,
  \<open>number = 3\<close> and no \<open>width\<close>.  The setter takes \<open>width = 64\<close>, assigns \<open>n = 3\<close> and
  \<open>w = 64\<close>, and completes; \<open>_setup_generator\<close> has no branch for the pair \<open>(3, 64)\<close>, so
  the function table is not resolved for it and stays what it was: the 4x64 table on
  \<open>demo_philox\<close>, the 2x32 table on \<open>demo_philox_2x32\<close>.  (For every pair outside the four
  variants the table stays as it was, \<open>setter_table_unknown_variant\<close>; for a pair among
  them it is resolved before the payload is validated, \<open>setter_resolves_supported\<close>.)
\<close>

theorem setter_keeps_table_for_unknown_variant:
  "res_error (state_setter demo_philox odd_snapshot) = None \<and>
   self_n (res_state (state_setter demo_philox odd_snapshot)) = 3 \<and>
   self_w (res_state (state_setter demo_philox odd_snapshot)) = 64 \<and>
   number (rng_state (res_state (state_setter demo_philox odd_snapshot))) = 3 \<and>
   width (rng_state (res_state (state_setter demo_philox odd_snapshot))) = 64 \<and>
   bitgen (res_state (state_setter demo_philox odd_snapshot)) = variant_table 4 64 \<and>
   res_error (state_setter demo_philox_2x32 odd_snapshot) = None \<and>
   self_n (res_state (state_setter demo_philox_2x32 odd_snapshot)) = 3 \<and>
   self_w (res_state (state_setter demo_philox_2x32 odd_snapshot)) = 64 \<and>
   bitgen (res_state (state_setter demo_philox_2x32 odd_snapshot)) = variant_table 2 32 \<and>
   variant_table 2 32 \<noteq> variant_table 4 64"
  by (simp add: state_setter_def demo_philox_def demo_philox_2x32_def odd_snapshot_def check_def
      dict_get_def getitem_def as_int_def as_uint32_def check_state_array_def setup_generator_def
      reset_state_variables_def PHILOX_BUFFER_SIZE_def write_buffer_def
      variant_table_def upt_conv_Cons replicate_4)

end
